theory Spec2Isabelle
  imports Main "HOL-Library.Sublist"
begin

section \<open>Go strings as byte lists\<close>

text \<open>
  A Go \<^verbatim>\<open>string\<close> is a sequence of bytes; it is modelled as \<^typ>\<open>string\<close>
  (a list of 8-bit \<^typ>\<open>char\<close>). Text is UTF-8, so a rune outside ASCII is
  several bytes.
\<close>

definition HasPrefix :: "string \<Rightarrow> string \<Rightarrow> bool" where
  "HasPrefix s p = prefix p s"

text \<open>
  \<^verbatim>\<open>unicode.IsSpace\<close>: the runes with the Unicode White_Space property,
  U+0009..U+000D, U+0020, U+0085, U+00A0, U+1680, U+2000..U+200A, U+2028, U+2029,
  U+202F, U+205F, U+3000, each by its UTF-8 encoding.
\<close>

definition spaceRunes :: "string list" where
  "spaceRunes =
    [[CHR 0x09], [CHR 0x0A], [CHR 0x0B], [CHR 0x0C], [CHR 0x0D], [CHR 0x20],
     [CHR 0xC2, CHR 0x85], [CHR 0xC2, CHR 0xA0],
     [CHR 0xE1, CHR 0x9A, CHR 0x80],
     [CHR 0xE2, CHR 0x80, CHR 0x80], [CHR 0xE2, CHR 0x80, CHR 0x81],
     [CHR 0xE2, CHR 0x80, CHR 0x82], [CHR 0xE2, CHR 0x80, CHR 0x83],
     [CHR 0xE2, CHR 0x80, CHR 0x84], [CHR 0xE2, CHR 0x80, CHR 0x85],
     [CHR 0xE2, CHR 0x80, CHR 0x86], [CHR 0xE2, CHR 0x80, CHR 0x87],
     [CHR 0xE2, CHR 0x80, CHR 0x88], [CHR 0xE2, CHR 0x80, CHR 0x89],
     [CHR 0xE2, CHR 0x80, CHR 0x8A],
     [CHR 0xE2, CHR 0x80, CHR 0xA8], [CHR 0xE2, CHR 0x80, CHR 0xA9],
     [CHR 0xE2, CHR 0x80, CHR 0xAF],
     [CHR 0xE2, CHR 0x81, CHR 0x9F],
     [CHR 0xE3, CHR 0x80, CHR 0x80]]"

text \<open>
  The width in bytes of the white-space rune a string starts with (ends with), and 0
  when it starts (ends) with none.
\<close>

definition leadingSpace :: "string \<Rightarrow> nat" where
  "leadingSpace s =
     (case find (\<lambda>r. prefix r s) spaceRunes of Some r \<Rightarrow> length r | None \<Rightarrow> 0)"

definition trailingSpace :: "string \<Rightarrow> nat" where
  "trailingSpace s =
     (case find (\<lambda>r. suffix r s) spaceRunes of Some r \<Rightarrow> length r | None \<Rightarrow> 0)"

lemma leadingSpace_le: "leadingSpace s \<le> length s"
  by (auto simp: leadingSpace_def find_Some_iff prefix_def split: option.splits)

lemma trailingSpace_le: "trailingSpace s \<le> length s"
  by (auto simp: trailingSpace_def find_Some_iff suffix_def split: option.splits)

function TrimLeftSpace :: "string \<Rightarrow> string" where
  "TrimLeftSpace s =
     (if leadingSpace s = 0 then s else TrimLeftSpace (drop (leadingSpace s) s))"
  by pat_completeness auto
termination
proof (relation "measure length")
  fix s :: string
  assume "leadingSpace s \<noteq> 0"
  with leadingSpace_le [of s] show "(drop (leadingSpace s) s, s) \<in> measure length"
    by simp
qed simp

function TrimRightSpace :: "string \<Rightarrow> string" where
  "TrimRightSpace s =
     (if trailingSpace s = 0 then s
      else TrimRightSpace (take (length s - trailingSpace s) s))"
  by pat_completeness auto
termination
proof (relation "measure length")
  fix s :: string
  assume "trailingSpace s \<noteq> 0"
  with trailingSpace_le [of s]
  show "(take (length s - trailingSpace s) s, s) \<in> measure length"
    by simp
qed simp

declare TrimLeftSpace.simps [simp del] TrimRightSpace.simps [simp del]

text \<open>\<^verbatim>\<open>strings.TrimSpace\<close>: all leading and trailing white space removed.\<close>

definition TrimSpace :: "string \<Rightarrow> string" where
  "TrimSpace s = TrimRightSpace (TrimLeftSpace s)"

text \<open>
  \<^verbatim>\<open>strings.Index\<close>, \<^verbatim>\<open>strings.Cut\<close> and \<^verbatim>\<open>strings.SplitN\<close>
  for a separator of one byte (the package only separates at \<^verbatim>\<open>"."\<close> and
  \<^verbatim>\<open>"="\<close>) and a count \<open>n \<ge> 0\<close>.
  \<^verbatim>\<open>Cut\<close> returns \<^verbatim>\<open>s[:i], s[i+1:], true\<close> at the first index \<open>i\<close> of the
  separator and \<^verbatim>\<open>s, "", false\<close> when there is none; \<^verbatim>\<open>SplitN\<close> cuts at most
  \<open>n - 1\<close> times and leaves the unsplit remainder as the last part.
\<close>

fun Index :: "string \<Rightarrow> char \<Rightarrow> nat option" where
  "Index [] sep = None"
| "Index (c # cs) sep = (if c = sep then Some 0 else map_option Suc (Index cs sep))"

definition Cut :: "string \<Rightarrow> char \<Rightarrow> string \<times> string \<times> bool" where
  "Cut s sep =
     (case Index s sep of
        Some i \<Rightarrow> (take i s, drop (Suc i) s, True)
      | None \<Rightarrow> (s, [], False))"

fun SplitN :: "string \<Rightarrow> char \<Rightarrow> nat \<Rightarrow> string list" where
  "SplitN s sep 0 = []"
| "SplitN s sep (Suc n) =
     (if n = 0 then [s]
      else case Index s sep of
             None \<Rightarrow> [s]
           | Some m \<Rightarrow> take m s # SplitN (drop (Suc m) s) sep n)"

text \<open>
  \<^verbatim>\<open>strings.EqualFold\<close>. Its first loop goes over the bytes of both strings while
  they are ASCII: two bytes are equal under folding when they are the same, or when
  the smaller one is an upper-case ASCII letter and the other one is its lower-case
  form (\<open>foldEq\<close>, only used on two ASCII bytes); when one string ends, the other
  must end too. At the first position where one of the two bytes is not ASCII it
  jumps to its second loop (the label \<^verbatim>\<open>hasUnicode\<close>) with the rest of both strings;
  that loop decodes runes and folds them with the tables of \<^verbatim>\<open>unicode.SimpleFold\<close>.
  The second loop belongs to the library and is the parameter \<open>foldRunes\<close>: every
  statement below holds for each value of it, so also for Go's.
\<close>

definition foldEq :: "char \<Rightarrow> char \<Rightarrow> bool" where
  "foldEq sr tr =
     (let lo = (if (of_char tr :: nat) < of_char sr then tr else sr);
          hi = (if (of_char tr :: nat) < of_char sr then sr else tr)
      in tr = sr \<or>
         ((of_char CHR ''A'' :: nat) \<le> of_char lo \<and> (of_char lo :: nat) \<le> of_char CHR ''Z'' \<and>
          (of_char hi :: nat) = of_char lo + of_char CHR ''a'' - of_char CHR ''A''))"

fun EqualFold :: "(string \<Rightarrow> string \<Rightarrow> bool) \<Rightarrow> string \<Rightarrow> string \<Rightarrow> bool" where
  "EqualFold foldRunes [] t = (t = [])"
| "EqualFold foldRunes (sr # s) [] = False"
| "EqualFold foldRunes (sr # s) (tr # t) =
     (if (of_char sr :: nat) \<ge> 0x80 \<or> (of_char tr :: nat) \<ge> 0x80
        then foldRunes (sr # s) (tr # t)
      else if foldEq sr tr then EqualFold foldRunes s t
      else False)"

section \<open>Regular expressions\<close>

text \<open>
  The patterns of the package use literals, character classes, \<^verbatim>\<open>.\<close> (any character
  but a newline), concatenation, \<^verbatim>\<open>*\<close>, \<^verbatim>\<open>+\<close> and \<^verbatim>\<open>?\<close>. Every class
  is ASCII and \<^verbatim>\<open>.\<close> takes any rune but the byte \<^verbatim>\<open>0x0A\<close>, so matching runes and
  matching bytes agree.
\<close>

datatype rexp =
    NoMatch
  | EmptyStr
  | Lit char
  | Class "char list"
  | AnyNotNL
  | Seq rexp rexp
  | Alt rexp rexp
  | Star rexp

definition Many1 :: "rexp \<Rightarrow> rexp" where
  "Many1 r = Seq r (Star r)"

definition Optional :: "rexp \<Rightarrow> rexp" where
  "Optional r = Alt r EmptyStr"

text \<open>The words a pattern matches.\<close>

inductive_set star :: "string set \<Rightarrow> string set" for A :: "string set" where
  star_empty: "[] \<in> star A"
| star_more: "u \<in> A \<Longrightarrow> v \<in> star A \<Longrightarrow> u @ v \<in> star A"

fun lang :: "rexp \<Rightarrow> string set" where
  "lang NoMatch = {}"
| "lang EmptyStr = {[]}"
| "lang (Lit c) = {[c]}"
| "lang (Class cs) = {[c] |c. c \<in> set cs}"
| "lang AnyNotNL = {[c] |c. c \<noteq> CHR 0x0A}"
| "lang (Seq r s) = {u @ v |u v. u \<in> lang r \<and> v \<in> lang s}"
| "lang (Alt r s) = lang r \<union> lang s"
| "lang (Star r) = star (lang r)"

text \<open>The matcher that runs: derivatives of the pattern, one byte at a time.\<close>

definition seq :: "rexp \<Rightarrow> rexp \<Rightarrow> rexp" where
  "seq r s =
     (if r = NoMatch \<or> s = NoMatch then NoMatch
      else if r = EmptyStr then s
      else if s = EmptyStr then r
      else Seq r s)"

definition alt :: "rexp \<Rightarrow> rexp \<Rightarrow> rexp" where
  "alt r s =
     (if r = NoMatch then s
      else if s = NoMatch then r
      else if r = s then r
      else Alt r s)"

fun nullable :: "rexp \<Rightarrow> bool" where
  "nullable NoMatch = False"
| "nullable EmptyStr = True"
| "nullable (Lit c) = False"
| "nullable (Class cs) = False"
| "nullable AnyNotNL = False"
| "nullable (Seq r s) = (nullable r \<and> nullable s)"
| "nullable (Alt r s) = (nullable r \<or> nullable s)"
| "nullable (Star r) = True"

fun deriv :: "char \<Rightarrow> rexp \<Rightarrow> rexp" where
  "deriv c NoMatch = NoMatch"
| "deriv c EmptyStr = NoMatch"
| "deriv c (Lit d) = (if c = d then EmptyStr else NoMatch)"
| "deriv c (Class cs) = (if c \<in> set cs then EmptyStr else NoMatch)"
| "deriv c AnyNotNL = (if c = CHR 0x0A then NoMatch else EmptyStr)"
| "deriv c (Seq r s) =
     (if nullable r then alt (seq (deriv c r) s) (deriv c s) else seq (deriv c r) s)"
| "deriv c (Alt r s) = alt (deriv c r) (deriv c s)"
| "deriv c (Star r) = seq (deriv c r) (Star r)"

text \<open>
  \<^verbatim>\<open>re.MatchString(s)\<close> for a pattern written between \<^verbatim>\<open>^\<close> and \<^verbatim>\<open>$\<close>
  (no flag is set, so they stand for the start and the end of the text): the whole of
  \<open>s\<close> is a word of the pattern.
\<close>

fun MatchString :: "rexp \<Rightarrow> string \<Rightarrow> bool" where
  "MatchString r [] = nullable r"
| "MatchString r (c # cs) = MatchString (deriv c r) cs"

text \<open>
  The match of a pattern at the start of a text: the matched prefix and the rest of the
  text. It is the shortest prefix the pattern matches.
\<close>

fun matchPrefix :: "rexp \<Rightarrow> string \<Rightarrow> (string \<times> string) option" where
  "matchPrefix r [] = (if nullable r then Some ([], []) else None)"
| "matchPrefix r (c # cs) =
     (if nullable r then Some ([], c # cs)
      else case matchPrefix (deriv c r) cs of
             None \<Rightarrow> None
           | Some (m, rest) \<Rightarrow> Some (c # m, rest))"

lemma matchPrefix_append: "matchPrefix r s = Some (m, rest) \<Longrightarrow> s = m @ rest"
  by (induction s arbitrary: r m rest) (auto split: if_splits option.splits)

lemma matchPrefix_shorter:
  "matchPrefix r s = Some (m, rest) \<Longrightarrow> m \<noteq> [] \<Longrightarrow> length rest < length s"
  by (drule matchPrefix_append) simp

text \<open>
  The character classes \<^verbatim>\<open>\w\<close> and \<^verbatim>\<open>\s\<close> of Go's regexp syntax (both ASCII:
  \<^verbatim>\<open>[0-9A-Za-z_]\<close> and \<^verbatim>\<open>[\t\n\f\r ]\<close>), the class \<^verbatim>\<open>[\w.-]\<close> of the
  characters of a key, and the three package-level values
  \<^verbatim>\<open>excludeExtensions = []string{"go"}\<close>,
  \<^verbatim>\<open>regexEnv = regexp.MustCompile(`\${(\w+)}`)\<close>,
  \<^verbatim>\<open>regexEnvFromFile = regexp.MustCompile(`^\s*([\w.-]+)\s*=\s*(.*)?\s*$`)\<close>.
  The groups only capture; the first version of the package compiles the same two
  patterns inside its functions.
\<close>

definition wordChars :: "char list" where
  "wordChars = ''0123456789ABCDEFGHIJKLMNOPQRSTUVWXYZ_abcdefghijklmnopqrstuvwxyz''"

definition keyChars :: "char list" where
  "keyChars = wordChars @ ''.-''"

definition perlSpace :: "char list" where
  "perlSpace = [CHR 0x09, CHR 0x0A, CHR 0x0C, CHR 0x0D, CHR 0x20]"

definition excludeExtensions :: "string list" where
  "excludeExtensions = [''go'']"

definition regexEnv :: rexp where
  "regexEnv = Seq (Lit CHR ''$'') (Seq (Lit CHR ''{'') (Seq (Many1 (Class wordChars)) (Lit CHR ''}'')))"

definition regexEnvFromFile :: rexp where
  "regexEnvFromFile =
     Seq (Star (Class perlSpace))
      (Seq (Many1 (Class keyChars))
        (Seq (Star (Class perlSpace))
          (Seq (Lit CHR ''='')
            (Seq (Star (Class perlSpace))
              (Seq (Optional (Star AnyNotNL)) (Star (Class perlSpace)))))))"

definition supportedExtensions :: "string list" where
  "supportedExtensions = [''yaml'', ''yml'', ''json'']"

section \<open>Errors, panics, the process and the file system\<close>

text \<open>
  The error values of \<^verbatim>\<open>errors.go\<close>, each with the text
  \<^verbatim>\<open>fmt.Errorf\<close> wraps it with. The first version of the package has the same
  kinds as format strings; there \<open>ErrReadingFile\<close> carries the text of the operating
  system's error, as \<open>ErrOpeningEnvFileOS\<close> does in place of the path, and
  \<open>ErrReadingConfig\<close> wraps the error of \<^verbatim>\<open>read\<close>. \<open>ErrScan\<close> is
  \<^verbatim>\<open>"error reading .env file: %w"\<close>, and \<open>Foreign\<close> is an error made outside the
  package (by the operating system or by an injected function), with its text.
\<close>

datatype error =
    ErrUnmarshalling string
  | ErrVariableNotFound string
  | ErrUnsupportedExt string
  | ErrReadingFile string
  | ErrOpenDir "string list"
  | ErrOpeningEnvFile "string \<times> string"
  | ErrOpeningEnvFileOS string
  | ErrInvalidEnvFormat string
  | ErrReadingConfig error
  | ErrScan string
  | Foreign string

text \<open>A call either returns or panics with the value given to \<^verbatim>\<open>panic\<close>.\<close>

datatype 'a outcome = Return 'a | Panic error

text \<open>
  \<^verbatim>\<open>path.Join(dir, name)\<close> is kept as the pair of its arguments, and the file
  system is indexed by such pairs, so nothing depends on how paths are cleaned.
  An \<^verbatim>\<open>*os.File\<close> is known by its path; a \<^verbatim>\<open>bufio.Scanner\<close> over it yields the
  lines of the file and then, when reading failed, an error.
\<close>

type_synonym path = "string \<times> string"

definition Join :: "string \<Rightarrow> string \<Rightarrow> path" where
  "Join dir name = (dir, name)"

datatype scanner = Scanner (tokens: "string list") (scanErr: "string option")

record osFile =
  osPath :: path
  osLines :: "string list"
  osErr :: "string option"

definition NewScanner :: "osFile \<Rightarrow> scanner" where
  "NewScanner f = Scanner (osLines f) (osErr f)"

text \<open>
  The file system as the package reads it: \<^verbatim>\<open>os.ReadDir\<close> gives the names of the
  entries of a directory in listing order, \<^verbatim>\<open>os.ReadFile\<close> the bytes of a file, and
  \<^verbatim>\<open>os.Open\<close> a file to scan (its lines and its read error); each may fail with
  an error text.
\<close>

record filesystem =
  ReadDir :: "string \<Rightarrow> string + string list"
  ReadFile :: "path \<Rightarrow> string + string"
  Open :: "path \<Rightarrow> string + (string list \<times> string option)"

text \<open>
  The state of the process that the package touches: the environment, and the files
  that are open (opened and not closed).
\<close>

record process =
  environ :: "string \<rightharpoonup> string"
  openFiles :: "path list"

text \<open>
  \<^verbatim>\<open>os.Getenv\<close> gives the empty string for a variable that is not set.
  \<^verbatim>\<open>os.Setenv\<close> fails (\<^verbatim>\<open>EINVAL\<close>) for an empty key, a key with \<^verbatim>\<open>=\<close> or a
  NUL byte, and a value with a NUL byte.
\<close>

definition Getenv :: "process \<Rightarrow> string \<Rightarrow> string" where
  "Getenv p key = (case environ p key of Some v \<Rightarrow> v | None \<Rightarrow> [])"

definition Setenv :: "string \<Rightarrow> string \<Rightarrow> process \<Rightarrow> error option \<times> process" where
  "Setenv key val p =
     (if key = [] \<or> CHR ''='' \<in> set key \<or> CHR 0x00 \<in> set key \<or> CHR 0x00 \<in> set val
      then (Some (Foreign ''setenv: invalid argument''), p)
      else (None, p\<lparr>environ := (environ p)(key \<mapsto> val)\<rparr>))"

definition osOpen :: "filesystem \<Rightarrow> path \<Rightarrow> process \<Rightarrow> (string + osFile) \<times> process" where
  "osOpen fs name p =
     (case Open fs name of
        Inl msg \<Rightarrow> (Inl msg, p)
      | Inr (ls, e) \<Rightarrow>
          (Inr \<lparr>osPath = name, osLines = ls, osErr = e\<rparr>,
           p\<lparr>openFiles := name # openFiles p\<rparr>))"

definition Close :: "osFile \<Rightarrow> process \<Rightarrow> process" where
  "Close f p = p\<lparr>openFiles := remove1 (osPath f) (openFiles p)\<rparr>"

section \<open>Placeholder substitution\<close>

text \<open>
  \<^verbatim>\<open>re.ReplaceAllStringFunc(src, repl)\<close>: the text is scanned from the left; at a
  match the replacement function is called on the matched text and the scan goes on
  after the match, elsewhere one byte is copied. A panic of the replacement function
  ends the call. The model is for a pattern that matches no empty text and at most one
  prefix of any text, as \<open>regexEnv\<close> does (lemma \<open>regexEnv_prefix_unique\<close>), so that the
  match \<open>matchPrefix\<close> finds is the one Go's leftmost-first search finds.
\<close>

function ReplaceAllStringFunc ::
  "rexp \<Rightarrow> string \<Rightarrow> (string \<Rightarrow> string outcome) \<Rightarrow> string outcome" where
  "ReplaceAllStringFunc re [] repl = Return []"
| "ReplaceAllStringFunc re (c # cs) repl =
     (case matchPrefix re (c # cs) of
        None \<Rightarrow>
          (case ReplaceAllStringFunc re cs repl of
             Panic e \<Rightarrow> Panic e
           | Return out \<Rightarrow> Return (c # out))
      | Some (m, rest) \<Rightarrow>
          if m = [] then
            (case ReplaceAllStringFunc re cs repl of
               Panic e \<Rightarrow> Panic e
             | Return out \<Rightarrow> Return (c # out))
          else
            (case repl m of
               Panic e \<Rightarrow> Panic e
             | Return v \<Rightarrow>
                 (case ReplaceAllStringFunc re rest repl of
                    Panic e \<Rightarrow> Panic e
                  | Return out \<Rightarrow> Return (v @ out))))"
  by pat_completeness auto
termination
  by (relation "measure (\<lambda>(re, src, repl). length src)")
     (auto simp del: matchPrefix.simps dest: matchPrefix_shorter)

declare matchPrefix.simps [simp del] ReplaceAllStringFunc.simps(2) [simp del]

text \<open>
  \<^verbatim>\<open>regexEnv.FindStringSubmatch(match)[1]\<close> on a text the pattern matched: the
  group \<^verbatim>\<open>(\w+)\<close>, which is the match without \<^verbatim>\<open>${\<close> and \<^verbatim>\<open>}\<close>.
\<close>

definition submatch1 :: "string \<Rightarrow> string" where
  "submatch1 m = butlast (drop 2 m)"

text \<open>
  \<^verbatim>\<open>func replaceEnvVariables(content string) string {
      return regexEnv.ReplaceAllStringFunc(content, func(match string) string {
          envVar := regexEnv.FindStringSubmatch(match)[1]
          env := os.Getenv(envVar)
          if env == "" {
              panic(fmt.Errorf(formatError, ErrVariableNotFound, envVar))
          }
          return env
      })
  }\<close>
\<close>

definition replaceEnvVariables :: "process \<Rightarrow> string \<Rightarrow> string outcome" where
  "replaceEnvVariables p content =
     ReplaceAllStringFunc regexEnv content
       (\<lambda>match.
          let envVar = submatch1 match;
              env = Getenv p envVar
          in if env = [] then Panic (ErrVariableNotFound envVar) else Return env)"

text \<open>
  The first version returns \<^verbatim>\<open>(string, error)\<close>; the error is always \<^verbatim>\<open>nil\<close>, and
  a missing variable panics in the same way.
\<close>

definition replaceEnvVariables_v1 :: "process \<Rightarrow> string \<Rightarrow> (string \<times> error option) outcome" where
  "replaceEnvVariables_v1 p content =
     (case ReplaceAllStringFunc regexEnv content
             (\<lambda>match.
                let envVar = submatch1 match;
                    env = Getenv p envVar
                in if env = [] then Panic (ErrVariableNotFound envVar) else Return env) of
        Panic e \<Rightarrow> Panic e
      | Return out \<Rightarrow> Return (out, None))"

section \<open>The line classifier of the env-file parser\<close>

text \<open>
  \<^verbatim>\<open>func isCommentOrEmpty(line string) bool {
      return strings.HasPrefix(line, "#") || strings.TrimSpace(line) == ""
  }\<close>
  The function is the same in both versions of the package.
\<close>

definition isCommentOrEmpty :: "string \<Rightarrow> bool" where
  "isCommentOrEmpty line = (HasPrefix line ''#'' \<or> TrimSpace line = [])"

text \<open>
  What "all-whitespace" means, independently of the trimming loops: the line is a
  concatenation of white-space runes.
\<close>

definition allWhitespace :: "string \<Rightarrow> bool" where
  "allWhitespace s = (\<exists>rs. set rs \<subseteq> set spaceRunes \<and> s = concat rs)"

text \<open>
  What the specification calls a placeholder occurrence: the text \<^verbatim>\<open>${NAME}\<close>, with
  \<open>NAME\<close> one or more word characters, somewhere in a text.
\<close>

definition placeholderIn :: "string \<Rightarrow> string \<Rightarrow> bool" where
  "placeholderIn name content =
     (name \<noteq> [] \<and> set name \<subseteq> set wordChars \<and> sublist (''${'' @ name @ ''}'') content)"

section \<open>Finding and reading the configuration file\<close>

text \<open>
  \<^verbatim>\<open>read\<close> of \<^verbatim>\<open>goconfig/config.go\<close>. The directory is \<^verbatim>\<open>"config"\<close> unless the
  caller gives one; \<open>readFiles\<close> is the loop over the entries, which skips a name
  without \<^verbatim>\<open>"."\<close> and a name whose extension (the text after the first \<^verbatim>\<open>"."\<close>) is
  in \<open>excludeExtensions\<close>, and returns at the first entry whose name before the first
  \<^verbatim>\<open>"."\<close> equals \<open>fileName\<close> under \<open>EqualFold\<close>.
\<close>

fun readFiles ::
  "(string \<Rightarrow> string \<Rightarrow> bool) \<Rightarrow> filesystem \<Rightarrow> process \<Rightarrow> string \<Rightarrow> string \<Rightarrow> string list \<Rightarrow> (error + string) outcome" where
  "readFiles foldRunes fs p dir fileName [] = Return (Inl (ErrUnsupportedExt fileName))"
| "readFiles foldRunes fs p dir fileName (file # files) =
     (case Cut file CHR ''.'' of
        (name, extension, found) \<Rightarrow>
          if \<not> found then readFiles foldRunes fs p dir fileName files
          else if extension \<in> set excludeExtensions then readFiles foldRunes fs p dir fileName files
          else if EqualFold foldRunes name fileName then
            (case ReadFile fs (Join dir file) of
               Inl msg \<Rightarrow> Return (Inl (ErrReadingFile fileName))
             | Inr content \<Rightarrow>
                 (case replaceEnvVariables p content of
                    Panic e \<Rightarrow> Panic e
                  | Return contentStr \<Rightarrow> Return (Inr contentStr)))
          else readFiles foldRunes fs p dir fileName files)"

definition read ::
  "(string \<Rightarrow> string \<Rightarrow> bool) \<Rightarrow> filesystem \<Rightarrow> process \<Rightarrow> string \<Rightarrow> string list \<Rightarrow> (error + string) outcome" where
  "read foldRunes fs p fileName basePath =
     (let dir = (if length basePath > 0 then basePath ! 0 else ''config'')
      in case ReadDir fs dir of
           Inl msg \<Rightarrow> Return (Inl (ErrOpenDir basePath))
         | Inr files \<Rightarrow> readFiles foldRunes fs p dir fileName files)"

text \<open>
  \<^verbatim>\<open>read\<close> of the first version: the directory is an argument, an entry is skipped
  unless its extension is in \<open>supportedExtensions\<close>, the error of \<^verbatim>\<open>os.ReadDir\<close> is
  returned as it is, and the error of \<^verbatim>\<open>os.ReadFile\<close> is wrapped.
\<close>

fun readFiles_v1 ::
  "(string \<Rightarrow> string \<Rightarrow> bool) \<Rightarrow> filesystem \<Rightarrow> process \<Rightarrow> string \<Rightarrow> string \<Rightarrow> string list \<Rightarrow> (error + string) outcome" where
  "readFiles_v1 foldRunes fs p basePath profile [] = Return (Inl (ErrUnsupportedExt profile))"
| "readFiles_v1 foldRunes fs p basePath profile (file # files) =
     (case Cut file CHR ''.'' of
        (name, extension, found) \<Rightarrow>
          if \<not> found then readFiles_v1 foldRunes fs p basePath profile files
          else if \<not> extension \<in> set supportedExtensions
            then readFiles_v1 foldRunes fs p basePath profile files
          else if EqualFold foldRunes name profile then
            (case ReadFile fs (Join basePath file) of
               Inl msg \<Rightarrow> Return (Inl (ErrReadingFile msg))
             | Inr content \<Rightarrow>
                 (case replaceEnvVariables_v1 p content of
                    Panic e \<Rightarrow> Panic e
                  | Return (contentStr, _) \<Rightarrow> Return (Inr contentStr)))
          else readFiles_v1 foldRunes fs p basePath profile files)"

definition read_v1 ::
  "(string \<Rightarrow> string \<Rightarrow> bool) \<Rightarrow> filesystem \<Rightarrow> process \<Rightarrow> string \<Rightarrow> string \<Rightarrow> (error + string) outcome" where
  "read_v1 foldRunes fs p profile basePath =
     (case ReadDir fs basePath of
        Inl msg \<Rightarrow> Return (Inl (Foreign msg))
      | Inr files \<Rightarrow> readFiles_v1 foldRunes fs p basePath profile files)"

definition readConfig ::
  "(string \<Rightarrow> string \<Rightarrow> bool) \<Rightarrow> filesystem \<Rightarrow> process \<Rightarrow> string \<Rightarrow> string list \<Rightarrow> (error + string) outcome" where
  "readConfig foldRunes fs p configName directoryName =
     (let dir = (if length directoryName > 0 then directoryName ! 0 else ''config'')
      in case read_v1 foldRunes fs p configName dir of
           Panic e \<Rightarrow> Panic e
         | Return (Inl err) \<Rightarrow> Return (Inl (ErrReadingConfig err))
         | Return (Inr content) \<Rightarrow> Return (Inr content))"

text \<open>
  The words of the specification for an entry of the directory: its stem is the name
  up to the first \<^verbatim>\<open>"."\<close>, its extension the text after it, and it can be selected
  for a logical name when it has an extension, the extension passes the filter (it is
  not excluded; in the first version, it is supported) and the stem equals the logical
  name under case folding.
\<close>

definition stemOf :: "string \<Rightarrow> string" where
  "stemOf entry = takeWhile (\<lambda>c. c \<noteq> CHR ''.'') entry"

definition extensionOf :: "string \<Rightarrow> string" where
  "extensionOf entry = tl (dropWhile (\<lambda>c. c \<noteq> CHR ''.'') entry)"

definition candidate :: "(string \<Rightarrow> string \<Rightarrow> bool) \<Rightarrow> string \<Rightarrow> string \<Rightarrow> bool" where
  "candidate foldRunes fileName entry =
     (CHR ''.'' \<in> set entry \<and> extensionOf entry \<notin> set excludeExtensions \<and>
      EqualFold foldRunes (stemOf entry) fileName)"

definition candidate_v1 :: "(string \<Rightarrow> string \<Rightarrow> bool) \<Rightarrow> string \<Rightarrow> string \<Rightarrow> bool" where
  "candidate_v1 foldRunes profile entry =
     (CHR ''.'' \<in> set entry \<and> extensionOf entry \<in> set supportedExtensions \<and>
      EqualFold foldRunes (stemOf entry) profile)"

section \<open>Loading a configuration\<close>

text \<open>
  The structure to fill is a value of any type \<open>'s\<close>; a deserializer
  (\<^verbatim>\<open>func(interface{}, []byte) error\<close>) takes it with the content and gives it back
  with its error. \<^verbatim>\<open>yaml.Unmarshal\<close> belongs to a library and is a parameter: it
  gives the text of its error, or none.
\<close>

record 's goConfig =
  unmarshallFunc :: "'s \<Rightarrow> string \<Rightarrow> error option \<times> 's"

definition unmarshallYAML ::
  "(string \<Rightarrow> 's \<Rightarrow> string option \<times> 's) \<Rightarrow> 's \<Rightarrow> string \<Rightarrow> error option \<times> 's" where
  "unmarshallYAML yamlUnmarshal structure content =
     (case yamlUnmarshal content structure of
        (Some msg, s') \<Rightarrow> (Some (ErrUnmarshalling msg), s')
      | (None, s') \<Rightarrow> (None, s'))"

definition NewGoConfig ::
  "(string \<Rightarrow> 's \<Rightarrow> string option \<times> 's) \<Rightarrow> ('s \<Rightarrow> string \<Rightarrow> error option \<times> 's) list \<Rightarrow> 's goConfig" where
  "NewGoConfig yamlUnmarshal unmarshallFuncs =
     \<lparr>unmarshallFunc =
        (if length unmarshallFuncs > 0 then unmarshallFuncs ! 0
         else unmarshallYAML yamlUnmarshal)\<rparr>"

definition ParseConfig ::
  "'s goConfig \<Rightarrow> (string \<Rightarrow> string \<Rightarrow> bool) \<Rightarrow> filesystem \<Rightarrow> process \<Rightarrow> 's \<Rightarrow> string \<Rightarrow> string list \<Rightarrow> (error option \<times> 's) outcome" where
  "ParseConfig g foldRunes fs p structure configName directoryName =
     (case read foldRunes fs p configName directoryName of
        Panic e \<Rightarrow> Panic e
      | Return (Inl err) \<Rightarrow> Return (Some err, structure)
      | Return (Inr content) \<Rightarrow>
          (case unmarshallFunc g structure content of
             (Some err, s') \<Rightarrow> Return (Some err, s')
           | (None, s') \<Rightarrow> Return (None, s')))"

text \<open>The first version always deserializes with \<^verbatim>\<open>yaml.Unmarshal\<close>.\<close>

definition unmarshallGeneric ::
  "(string \<Rightarrow> 's \<Rightarrow> string option \<times> 's) \<Rightarrow> 's \<Rightarrow> string \<Rightarrow> error option \<times> 's" where
  "unmarshallGeneric yamlUnmarshal structure content =
     (case yamlUnmarshal content structure of
        (Some msg, s') \<Rightarrow> (Some (ErrUnmarshalling msg), s')
      | (None, s') \<Rightarrow> (None, s'))"

definition NewConfig ::
  "(string \<Rightarrow> 's \<Rightarrow> string option \<times> 's) \<Rightarrow> (string \<Rightarrow> string \<Rightarrow> bool) \<Rightarrow> filesystem \<Rightarrow> process \<Rightarrow> 's \<Rightarrow> string \<Rightarrow> string list \<Rightarrow> (error option \<times> 's) outcome" where
  "NewConfig yamlUnmarshal foldRunes fs p structure configName directoryName =
     (case readConfig foldRunes fs p configName directoryName of
        Panic e \<Rightarrow> Panic e
      | Return (Inl err) \<Rightarrow> Return (Some err, structure)
      | Return (Inr content) \<Rightarrow>
          (case unmarshallGeneric yamlUnmarshal structure content of
             (Some err, s') \<Rightarrow> Return (Some err, s')
           | (None, s') \<Rightarrow> Return (None, s')))"

section \<open>Loading env files\<close>

text \<open>
  \<^verbatim>\<open>func setEnvVarFromLine(re *regexp.Regexp, line string) error {
      parts := strings.SplitN(line, "=", 2)
      if len(parts) != 2 { return fmt.Errorf(formatError, ErrInvalidEnvFormat, line) }
      if !re.MatchString(line) { return fmt.Errorf(formatError, ErrInvalidEnvFormat, line) }
      key, value := parts[0], parts[1]
      return os.Setenv(key, value)
  }\<close>
\<close>

definition setEnvVarFromLine :: "rexp \<Rightarrow> string \<Rightarrow> process \<Rightarrow> error option \<times> process" where
  "setEnvVarFromLine re line p =
     (let parts = SplitN line CHR ''='' 2 in
      if length parts \<noteq> 2 then (Some (ErrInvalidEnvFormat line), p)
      else if \<not> MatchString re line then (Some (ErrInvalidEnvFormat line), p)
      else let key = parts ! 0; val = parts ! 1 in Setenv key val p)"

text \<open>
  The first version checks the pattern first and sets the variable through the
  package variable \<^verbatim>\<open>setEnvFunc\<close> (\<^verbatim>\<open>os.Setenv\<close> unless a test replaces it), here
  a parameter.
\<close>

definition setEnvVarFromLine_v1 ::
  "(string \<Rightarrow> string \<Rightarrow> process \<Rightarrow> error option \<times> process) \<Rightarrow> rexp \<Rightarrow> string \<Rightarrow> process \<Rightarrow> error option \<times> process" where
  "setEnvVarFromLine_v1 setEnvFunc re line p =
     (if \<not> MatchString re line then (Some (ErrInvalidEnvFormat line), p)
      else let parts = SplitN line CHR ''='' 2 in
        if length parts \<noteq> 2 then (Some (ErrInvalidEnvFormat line), p)
        else let key = parts ! 0; val = parts ! 1 in setEnvFunc key val p)"

text \<open>
  \<^verbatim>\<open>parseEnvFile\<close>: the loop \<^verbatim>\<open>for scanner.Scan()\<close> over the lines, which returns at
  the first error of \<^verbatim>\<open>setEnvVarFromLine\<close>, and then the check of \<^verbatim>\<open>scanner.Err()\<close>.
\<close>

function parseEnvFile :: "scanner \<Rightarrow> process \<Rightarrow> error option \<times> process" where
  "parseEnvFile (Scanner [] err) p =
     (case err of Some msg \<Rightarrow> (Some (ErrScan msg), p) | None \<Rightarrow> (None, p))"
| "parseEnvFile (Scanner (line # rest) err) p =
     (if isCommentOrEmpty line then parseEnvFile (Scanner rest err) p
      else case setEnvVarFromLine regexEnvFromFile line p of
             (Some e, p') \<Rightarrow> (Some e, p')
           | (None, p') \<Rightarrow> parseEnvFile (Scanner rest err) p')"
  by pat_completeness auto
termination
  by (relation "measure (\<lambda>(sc, p). length (tokens sc))") auto

function parseEnvFile_v1 ::
  "(string \<Rightarrow> string \<Rightarrow> process \<Rightarrow> error option \<times> process) \<Rightarrow> scanner \<Rightarrow> process \<Rightarrow> error option \<times> process" where
  "parseEnvFile_v1 setEnvFunc (Scanner [] err) p =
     (case err of Some msg \<Rightarrow> (Some (ErrScan msg), p) | None \<Rightarrow> (None, p))"
| "parseEnvFile_v1 setEnvFunc (Scanner (line # rest) err) p =
     (if isCommentOrEmpty line then parseEnvFile_v1 setEnvFunc (Scanner rest err) p
      else case setEnvVarFromLine_v1 setEnvFunc regexEnvFromFile line p of
             (Some e, p') \<Rightarrow> (Some e, p')
           | (None, p') \<Rightarrow> parseEnvFile_v1 setEnvFunc (Scanner rest err) p')"
  by pat_completeness auto
termination
  by (relation "measure (\<lambda>(f, sc, p). length (tokens sc))") auto

text \<open>\<^verbatim>\<open>openFile\<close> wraps the error of \<^verbatim>\<open>os.Open\<close>.\<close>

definition openFile :: "filesystem \<Rightarrow> path \<Rightarrow> process \<Rightarrow> (error + osFile) \<times> process" where
  "openFile fs filePath p =
     (case osOpen fs filePath p of
        (Inl msg, p') \<Rightarrow> (Inl (ErrOpeningEnvFile filePath), p')
      | (Inr file, p') \<Rightarrow> (Inr file, p'))"

definition openFile_v1 :: "filesystem \<Rightarrow> path \<Rightarrow> process \<Rightarrow> (error + osFile) \<times> process" where
  "openFile_v1 fs filePath p =
     (case osOpen fs filePath p of
        (Inl msg, p') \<Rightarrow> (Inl (ErrOpeningEnvFileOS msg), p')
      | (Inr file, p') \<Rightarrow> (Inr file, p'))"

text \<open>
  \<^verbatim>\<open>func (g goConfig) LoadEnv(envFiles ...string) error {
      dir := "."
      if len(envFiles) == 0 { envFiles = []string{".env"} }
      for _, envFile := range envFiles {
          filePath := path.Join(dir, envFile)
          file, err := openFile(filePath)
          if err != nil { return err }
          scanner := bufio.NewScanner(file)
          if err := parseEnvFile(scanner); err != nil { return err }
          _ = file.Close()
      }
      return nil
  }\<close>
  The receiver is not used. \<open>loadEnvFiles\<close> is the loop; the first version has the same
  body over its own \<^verbatim>\<open>openFile\<close> and \<^verbatim>\<open>parseEnvFile\<close>.
\<close>

fun loadEnvFiles :: "filesystem \<Rightarrow> string \<Rightarrow> string list \<Rightarrow> process \<Rightarrow> error option \<times> process" where
  "loadEnvFiles fs dir [] p = (None, p)"
| "loadEnvFiles fs dir (envFile # envFiles) p =
     (let filePath = Join dir envFile in
      case openFile fs filePath p of
        (Inl err, p1) \<Rightarrow> (Some err, p1)
      | (Inr file, p1) \<Rightarrow>
          (case parseEnvFile (NewScanner file) p1 of
             (Some err, p2) \<Rightarrow> (Some err, p2)
           | (None, p2) \<Rightarrow> loadEnvFiles fs dir envFiles (Close file p2)))"

definition LoadEnv :: "filesystem \<Rightarrow> string list \<Rightarrow> process \<Rightarrow> error option \<times> process" where
  "LoadEnv fs envFiles p =
     loadEnvFiles fs ''.'' (if length envFiles = 0 then [''.env''] else envFiles) p"

fun loadEnvFiles_v1 ::
  "(string \<Rightarrow> string \<Rightarrow> process \<Rightarrow> error option \<times> process) \<Rightarrow> filesystem \<Rightarrow> string \<Rightarrow> string list \<Rightarrow> process \<Rightarrow> error option \<times> process" where
  "loadEnvFiles_v1 setEnvFunc fs dir [] p = (None, p)"
| "loadEnvFiles_v1 setEnvFunc fs dir (envFile # envFiles) p =
     (let filePath = Join dir envFile in
      case openFile_v1 fs filePath p of
        (Inl err, p1) \<Rightarrow> (Some err, p1)
      | (Inr file, p1) \<Rightarrow>
          (case parseEnvFile_v1 setEnvFunc (NewScanner file) p1 of
             (Some err, p2) \<Rightarrow> (Some err, p2)
           | (None, p2) \<Rightarrow> loadEnvFiles_v1 setEnvFunc fs dir envFiles (Close file p2)))"

definition LoadEnv_v1 ::
  "(string \<Rightarrow> string \<Rightarrow> process \<Rightarrow> error option \<times> process) \<Rightarrow> filesystem \<Rightarrow> string list \<Rightarrow> process \<Rightarrow> error option \<times> process" where
  "LoadEnv_v1 setEnvFunc fs envFiles p =
     loadEnvFiles_v1 setEnvFunc fs ''.'' (if length envFiles = 0 then [''.env''] else envFiles) p"

section \<open>White space and the line classifier\<close>

lemma find_SomeD: "find P xs = Some x \<Longrightarrow> P x \<and> x \<in> set xs"
  by (induction xs) (auto split: if_splits)

lemma spaceRunes_nonempty: "r \<in> set spaceRunes \<Longrightarrow> r \<noteq> []"
proof -
  have "list_all (\<lambda>r. r \<noteq> []) spaceRunes"
    unfolding spaceRunes_def by simp
  then show "r \<in> set spaceRunes \<Longrightarrow> r \<noteq> []"
    by (simp add: list_all_iff)
qed

text \<open>No white-space rune is a prefix of another one: the first that fits is the one.\<close>

lemma find_spaceRune:
  "list_all (\<lambda>r. \<forall>t. find (\<lambda>q. prefix q (r @ t)) spaceRunes = Some r) spaceRunes"
  unfolding spaceRunes_def by simp

lemma leadingSpace_rune: "r \<in> set spaceRunes \<Longrightarrow> leadingSpace (r @ t) = length r"
  using find_spaceRune by (simp add: list_all_iff leadingSpace_def)

lemma leadingSpace_pos:
  "leadingSpace s \<noteq> 0 \<Longrightarrow>
     \<exists>r. r \<in> set spaceRunes \<and> prefix r s \<and> leadingSpace s = length r"
  by (cases "find (\<lambda>r. prefix r s) spaceRunes")
     (auto simp: leadingSpace_def dest: find_SomeD)

lemma trailingSpace_pos:
  "trailingSpace s \<noteq> 0 \<Longrightarrow>
     \<exists>r. r \<in> set spaceRunes \<and> suffix r s \<and> trailingSpace s = length r"
  by (cases "find (\<lambda>r. suffix r s) spaceRunes")
     (auto simp: trailingSpace_def dest: find_SomeD)

lemma TrimLeftSpace_stop: "leadingSpace s = 0 \<Longrightarrow> TrimLeftSpace s = s"
  by (subst TrimLeftSpace.simps) simp

lemma TrimLeftSpace_step:
  "leadingSpace s = Suc n \<Longrightarrow> TrimLeftSpace s = TrimLeftSpace (drop (Suc n) s)"
  by (subst TrimLeftSpace.simps) simp

lemma TrimRightSpace_stop: "trailingSpace s = 0 \<Longrightarrow> TrimRightSpace s = s"
  by (subst TrimRightSpace.simps) simp

lemma TrimLeftSpace_rune:
  assumes "r \<in> set spaceRunes"
  shows "TrimLeftSpace (r @ t) = TrimLeftSpace t"
proof -
  from assms have "r \<noteq> []" by (rule spaceRunes_nonempty)
  with leadingSpace_rune [OF assms, of t] show ?thesis
    by (subst TrimLeftSpace.simps) simp
qed

lemma TrimLeftSpace_concat:
  "set rs \<subseteq> set spaceRunes \<Longrightarrow> TrimLeftSpace (concat rs) = []"
proof (induction rs)
  case Nil
  have "leadingSpace [] = 0"
    using leadingSpace_le [of "[]"] by simp
  then show ?case by (simp add: TrimLeftSpace_stop)
next
  case (Cons r rs)
  then show ?case by (simp add: TrimLeftSpace_rune)
qed

lemma TrimRightSpace_Nil: "TrimRightSpace [] = []"
  using trailingSpace_le [of "[]"] by (simp add: TrimRightSpace_stop)

lemma allWhitespace_Nil: "allWhitespace []"
  unfolding allWhitespace_def by (rule exI [of _ "[]"]) simp

lemma allWhitespace_snoc:
  assumes "allWhitespace s" and "r \<in> set spaceRunes"
  shows "allWhitespace (s @ r)"
proof -
  from assms(1) obtain rs where rs: "set rs \<subseteq> set spaceRunes" "s = concat rs"
    unfolding allWhitespace_def by blast
  with assms(2) have "set (rs @ [r]) \<subseteq> set spaceRunes \<and> s @ r = concat (rs @ [r])"
    by simp
  then show ?thesis unfolding allWhitespace_def by blast
qed

lemma allWhitespace_cons:
  assumes "allWhitespace s" and "r \<in> set spaceRunes"
  shows "allWhitespace (r @ s)"
proof -
  from assms(1) obtain rs where rs: "set rs \<subseteq> set spaceRunes" "s = concat rs"
    unfolding allWhitespace_def by blast
  with assms(2) have "set (r # rs) \<subseteq> set spaceRunes \<and> r @ s = concat (r # rs)"
    by simp
  then show ?thesis unfolding allWhitespace_def by blast
qed

lemma TrimRightSpace_empty_allWhitespace:
  "TrimRightSpace s = [] \<Longrightarrow> allWhitespace s"
proof (induction s rule: TrimRightSpace.induct)
  case (1 s)
  show ?case
  proof (cases "trailingSpace s = 0")
    case True
    with "1.prems" have "s = []" by (simp add: TrimRightSpace_stop)
    then show ?thesis by (simp add: allWhitespace_Nil)
  next
    case False
    then obtain r where r: "r \<in> set spaceRunes" "suffix r s" "trailingSpace s = length r"
      using trailingSpace_pos by blast
    from r(2) obtain q where q: "s = q @ r" by (auto simp: suffix_def)
    with r(3) have tk: "take (length s - trailingSpace s) s = q" by simp
    from False "1.prems" have "TrimRightSpace (take (length s - trailingSpace s) s) = []"
      by (subst (asm) TrimRightSpace.simps) simp
    with "1.IH" [OF False] have "allWhitespace q" by (simp add: tk)
    with r(1) q show ?thesis by (simp add: allWhitespace_snoc)
  qed
qed

lemma TrimLeftSpace_allWhitespace:
  "allWhitespace (TrimLeftSpace s) \<Longrightarrow> allWhitespace s"
proof (induction s rule: TrimLeftSpace.induct)
  case (1 s)
  show ?case
  proof (cases "leadingSpace s = 0")
    case True
    with "1.prems" show ?thesis by (simp add: TrimLeftSpace_stop)
  next
    case False
    then obtain r where r: "r \<in> set spaceRunes" "prefix r s" "leadingSpace s = length r"
      using leadingSpace_pos by blast
    from r(2) obtain t where t: "s = r @ t" by (auto simp: prefix_def)
    with r(3) have dr: "drop (leadingSpace s) s = t" by simp
    from False "1.prems" have "allWhitespace (TrimLeftSpace (drop (leadingSpace s) s))"
      by (subst (asm) TrimLeftSpace.simps) simp
    with "1.IH" [OF False] have "allWhitespace t" by (simp add: dr)
    with r(1) t show ?thesis by (simp add: allWhitespace_cons)
  qed
qed

lemma TrimSpace_empty_iff: "TrimSpace s = [] \<longleftrightarrow> allWhitespace s"
proof
  assume "TrimSpace s = []"
  then have "allWhitespace (TrimLeftSpace s)"
    unfolding TrimSpace_def by (rule TrimRightSpace_empty_allWhitespace)
  then show "allWhitespace s" by (rule TrimLeftSpace_allWhitespace)
next
  assume "allWhitespace s"
  then obtain rs where "set rs \<subseteq> set spaceRunes" "s = concat rs"
    unfolding allWhitespace_def by blast
  then show "TrimSpace s = []"
    by (simp add: TrimSpace_def TrimLeftSpace_concat TrimRightSpace_Nil)
qed

lemma allWhitespace_space: "allWhitespace '' ''"
proof -
  have "set ['' ''] \<subseteq> set spaceRunes \<and> '' '' = concat ['' '']"
    by (simp add: spaceRunes_def)
  then show ?thesis unfolding allWhitespace_def by blast
qed

lemma indented_comment_not_skipped: "\<not> isCommentOrEmpty '' # comment''"
proof -
  have l1: "leadingSpace '' # comment'' = Suc 0"
    by (simp add: leadingSpace_def spaceRunes_def)
  have l2: "leadingSpace ''# comment'' = 0"
    by (simp add: leadingSpace_def spaceRunes_def)
  have t2: "trailingSpace ''# comment'' = 0"
    by (simp add: trailingSpace_def spaceRunes_def suffix_to_prefix)
  show ?thesis
    by (simp add: isCommentOrEmpty_def HasPrefix_def TrimSpace_def
        TrimLeftSpace_step [OF l1] TrimLeftSpace_stop [OF l2] TrimRightSpace_stop [OF t2])
qed

section \<open>The derivative matcher matches the words of the pattern\<close>

lemma lang_seq: "lang (seq r s) = lang (Seq r s)"
  by (auto simp: seq_def)

lemma lang_alt: "lang (alt r s) = lang (Alt r s)"
  by (auto simp: alt_def)

lemma nullable_iff: "nullable r \<longleftrightarrow> [] \<in> lang r"
  by (induction r) (auto intro: star.intros)

lemma lang_SeqI: "u \<in> lang r \<Longrightarrow> v \<in> lang s \<Longrightarrow> u @ v \<in> lang (Seq r s)"
  by auto

lemma lang_Lit_Seq: "x \<in> lang (Seq (Lit c) s) \<longleftrightarrow> (\<exists>v. x = c # v \<and> v \<in> lang s)"
  by auto

lemma lang_Seq_Lit: "x \<in> lang (Seq r (Lit c)) \<longleftrightarrow> (\<exists>u. x = u @ [c] \<and> u \<in> lang r)"
  by auto

lemma star_Cons_split:
  assumes "x \<in> star A" and "x = c # w"
  shows "\<exists>u v. w = u @ v \<and> c # u \<in> A \<and> v \<in> star A"
  using assms
proof (induction arbitrary: w rule: star.induct)
  case star_empty
  then show ?case by simp
next
  case (star_more u v)
  show ?case
  proof (cases u)
    case Nil
    with star_more show ?thesis by simp
  next
    case (Cons d u')
    with star_more.prems have "d = c" "w = u' @ v" by simp_all
    with Cons star_more.hyps show ?thesis by blast
  qed
qed

lemma lang_deriv: "w \<in> lang (deriv c r) \<longleftrightarrow> c # w \<in> lang r"
proof (induction r arbitrary: w)
  case (Seq r s)
  show ?case
  proof
    assume "w \<in> lang (deriv c (Seq r s))"
    then consider (l) u v where "w = u @ v" "u \<in> lang (deriv c r)" "v \<in> lang s"
      | (r) "nullable r" "w \<in> lang (deriv c s)"
      by (auto simp: lang_seq lang_alt split: if_splits)
    then show "c # w \<in> lang (Seq r s)"
    proof cases
      case l
      from l have "c # u \<in> lang r" using Seq.IH(1) by simp
      then have "(c # u) @ v \<in> lang (Seq r s)" using l(3) by (rule lang_SeqI)
      with l show ?thesis by simp
    next
      case r
      then have "[] \<in> lang r" "c # w \<in> lang s"
        using Seq.IH(2) by (simp_all add: nullable_iff)
      then have "[] @ (c # w) \<in> lang (Seq r s)" by (rule lang_SeqI)
      then show ?thesis by simp
    qed
  next
    assume "c # w \<in> lang (Seq r s)"
    then obtain u v where uv: "c # w = u @ v" "u \<in> lang r" "v \<in> lang s" by auto
    show "w \<in> lang (deriv c (Seq r s))"
    proof (cases u)
      case Nil
      with uv have "nullable r" "w \<in> lang (deriv c s)"
        using Seq.IH(2) by (simp_all add: nullable_iff)
      then show ?thesis by (simp add: lang_alt)
    next
      case (Cons d u')
      with uv have "u' \<in> lang (deriv c r)" "w = u' @ v" using Seq.IH(1) by simp_all
      with uv(3) show ?thesis by (auto simp: lang_alt lang_seq)
    qed
  qed
next
  case (Star r)
  show ?case
  proof
    assume "w \<in> lang (deriv c (Star r))"
    then obtain u v where "w = u @ v" "u \<in> lang (deriv c r)" "v \<in> star (lang r)"
      by (auto simp: lang_seq)
    then have "(c # u) @ v \<in> star (lang r)" using Star.IH by (blast intro: star.star_more)
    with \<open>w = u @ v\<close> show "c # w \<in> lang (Star r)" by simp
  next
    assume "c # w \<in> lang (Star r)"
    then have "c # w \<in> star (lang r)" by simp
    then obtain u v where "w = u @ v" "c # u \<in> lang r" "v \<in> star (lang r)"
      using star_Cons_split by blast
    then show "w \<in> lang (deriv c (Star r))" using Star.IH by (auto simp: lang_seq)
  qed
qed (auto simp: lang_alt)

lemma MatchString_lang: "MatchString r s \<longleftrightarrow> s \<in> lang r"
  by (induction s arbitrary: r) (simp_all add: nullable_iff lang_deriv)

lemma matchPrefix_lang: "matchPrefix r s = Some (m, rest) \<Longrightarrow> m \<in> lang r"
proof (induction s arbitrary: r m rest)
  case Nil
  then show ?case by (auto simp: matchPrefix.simps nullable_iff split: if_splits)
next
  case (Cons c cs)
  show ?case
  proof (cases "nullable r")
    case True
    with Cons.prems show ?thesis by (simp add: matchPrefix.simps nullable_iff)
  next
    case False
    with Cons.prems obtain m' where m': "matchPrefix (deriv c r) cs = Some (m', rest)" "m = c # m'"
      by (auto simp: matchPrefix.simps split: option.splits)
    from Cons.IH [OF m'(1)] have "c # m' \<in> lang r" by (simp add: lang_deriv)
    with m'(2) show ?thesis by simp
  qed
qed

lemma matchPrefix_None: "matchPrefix r s = None \<Longrightarrow> m \<in> lang r \<Longrightarrow> \<not> prefix m s"
proof (induction s arbitrary: r m)
  case Nil
  then show ?case by (auto simp: matchPrefix.simps nullable_iff split: if_splits)
next
  case (Cons c cs)
  from Cons.prems(1) have nn: "\<not> nullable r" and n: "matchPrefix (deriv c r) cs = None"
    by (auto simp: matchPrefix.simps split: if_splits option.splits)
  show ?case
  proof
    assume p: "prefix m (c # cs)"
    from nn Cons.prems(2) have "m \<noteq> []" by (auto simp: nullable_iff)
    with p obtain m' where m': "m = c # m'" "prefix m' cs" by (cases m) auto
    with Cons.prems(2) have "m' \<in> lang (deriv c r)" by (simp add: lang_deriv)
    with Cons.IH [OF n] m'(2) show False by blast
  qed
qed

lemma matchPrefix_unique:
  assumes "m \<in> lang r"
    and "\<And>m'. m' \<in> lang r \<Longrightarrow> prefix m' (m @ rest) \<Longrightarrow> m' = m"
  shows "matchPrefix r (m @ rest) = Some (m, rest)"
proof (cases "matchPrefix r (m @ rest)")
  case None
  from matchPrefix_None [OF None assms(1)] show ?thesis by simp
next
  case (Some x)
  obtain m' rest' where x: "x = (m', rest')" by (cases x)
  with Some have "m @ rest = m' @ rest'" "m' \<in> lang r"
    by (auto dest: matchPrefix_append matchPrefix_lang)
  with assms(2) [of m'] have "m' = m" by (simp add: prefix_def)
  with \<open>m @ rest = m' @ rest'\<close> Some x show ?thesis by simp
qed

lemma lang_Star_Class: "w \<in> lang (Star (Class cs)) \<longleftrightarrow> set w \<subseteq> set cs"
proof
  assume "w \<in> lang (Star (Class cs))"
  then have "w \<in> star (lang (Class cs))" by simp
  then show "set w \<subseteq> set cs" by (induction rule: star.induct) auto
next
  assume "set w \<subseteq> set cs"
  then have "w \<in> star (lang (Class cs))"
  proof (induction w)
    case Nil
    show ?case by (rule star.star_empty)
  next
    case (Cons c w)
    then have "[c] \<in> lang (Class cs)" "w \<in> star (lang (Class cs))" by simp_all
    then have "[c] @ w \<in> star (lang (Class cs))" by (rule star.star_more)
    then show ?case by simp
  qed
  then show "w \<in> lang (Star (Class cs))" by simp
qed

lemma lang_Many1_Class:
  "w \<in> lang (Many1 (Class cs)) \<longleftrightarrow> w \<noteq> [] \<and> set w \<subseteq> set cs"
proof -
  have "w \<in> lang (Many1 (Class cs)) \<longleftrightarrow>
          (\<exists>u v. w = u @ v \<and> u \<in> lang (Class cs) \<and> v \<in> lang (Star (Class cs)))"
    unfolding Many1_def by (simp only: lang.simps(6)) blast
  also have "\<dots> \<longleftrightarrow> (\<exists>c v. w = c # v \<and> c \<in> set cs \<and> set v \<subseteq> set cs)"
    by (simp only: lang_Star_Class) (auto simp: Cons_eq_append_conv intro: exI [of _ "[c]" for c])
  also have "\<dots> \<longleftrightarrow> w \<noteq> [] \<and> set w \<subseteq> set cs" by (cases w) auto
  finally show ?thesis .
qed

lemma lang_regexEnv:
  "m \<in> lang regexEnv \<longleftrightarrow> (\<exists>w. w \<noteq> [] \<and> set w \<subseteq> set wordChars \<and> m = ''${'' @ w @ ''}'')"
  unfolding regexEnv_def
  by (simp only: lang_Lit_Seq lang_Seq_Lit lang_Many1_Class) auto

lemma regexEnv_prefix_unique:
  assumes "m1 \<in> lang regexEnv" "m2 \<in> lang regexEnv" "prefix m1 s" "prefix m2 s"
  shows "m1 = m2"
proof -
  from assms(1) obtain w1 where w1: "w1 \<noteq> []" "set w1 \<subseteq> set wordChars" "m1 = ''${'' @ w1 @ ''}''"
    by (auto simp: lang_regexEnv)
  from assms(2) obtain w2 where w2: "w2 \<noteq> []" "set w2 \<subseteq> set wordChars" "m2 = ''${'' @ w2 @ ''}''"
    by (auto simp: lang_regexEnv)
  have nb: "CHR ''}'' \<notin> set wordChars" by (simp add: wordChars_def)
  from assms(3) w1(3) obtain t1 where t1: "s = ''${'' @ w1 @ ''}'' @ t1" by (auto simp: prefix_def)
  from assms(4) w2(3) obtain t2 where t2: "s = ''${'' @ w2 @ ''}'' @ t2" by (auto simp: prefix_def)
  from t1 t2 have eq: "w1 @ CHR ''}'' # t1 = w2 @ CHR ''}'' # t2" by simp
  have "takeWhile (\<lambda>c. c \<noteq> CHR ''}'') (w1 @ CHR ''}'' # t1) = w1"
    using w1(2) nb by (auto simp: takeWhile_tail)
  moreover have "takeWhile (\<lambda>c. c \<noteq> CHR ''}'') (w2 @ CHR ''}'' # t2) = w2"
    using w2(2) nb by (auto simp: takeWhile_tail)
  ultimately have "w1 = w2" using eq by simp
  with w1(3) w2(3) show ?thesis by simp
qed

section \<open>Substitution, one match at a time\<close>

lemmas re_defs =
  regexEnvFromFile_def regexEnv_def Many1_def Optional_def wordChars_def keyChars_def
  perlSpace_def seq_def alt_def

lemma sublist_ConsI: "sublist xs ys \<Longrightarrow> sublist xs (y # ys)"
  by (simp add: sublist_Cons_right)

lemma sublist_prependI: "sublist xs ys \<Longrightarrow> sublist xs (zs @ ys)"
  by (induction zs) (simp_all add: sublist_ConsI)

lemma Replace_None:
  "matchPrefix re (c # cs) = None \<Longrightarrow>
   ReplaceAllStringFunc re (c # cs) repl =
     (case ReplaceAllStringFunc re cs repl of Panic e \<Rightarrow> Panic e | Return out \<Rightarrow> Return (c # out))"
  by (simp add: ReplaceAllStringFunc.simps(2))

lemma Replace_Some:
  "matchPrefix re (c # cs) = Some (m, rest) \<Longrightarrow> m \<noteq> [] \<Longrightarrow>
   ReplaceAllStringFunc re (c # cs) repl =
     (case repl m of
        Panic e \<Rightarrow> Panic e
      | Return v \<Rightarrow>
          (case ReplaceAllStringFunc re rest repl of
             Panic e \<Rightarrow> Panic e
           | Return out \<Rightarrow> Return (v @ out)))"
  by (simp add: ReplaceAllStringFunc.simps(2))

lemma Replace_no_match:
  "(\<And>m. m \<in> lang re \<Longrightarrow> \<not> sublist m src) \<Longrightarrow> ReplaceAllStringFunc re src repl = Return src"
proof (induction src)
  case Nil
  show ?case by simp
next
  case (Cons c cs)
  have none: "matchPrefix re (c # cs) = None"
  proof (cases "matchPrefix re (c # cs)")
    case (Some x)
    obtain m rest where "x = (m, rest)" by (cases x)
    with Some have "m \<in> lang re" "prefix m (c # cs)"
      by (auto dest: matchPrefix_lang matchPrefix_append)
    with Cons.prems [of m] show ?thesis by (auto dest: prefix_imp_sublist)
  qed simp
  have "\<And>m. m \<in> lang re \<Longrightarrow> \<not> sublist m cs"
    using Cons.prems by (auto dest: sublist_ConsI)
  then have "ReplaceAllStringFunc re cs repl = Return cs" by (rule Cons.IH)
  with none show ?case by (simp add: Replace_None)
qed

lemma placeholder_lang:
  "m \<in> lang regexEnv \<Longrightarrow> sublist m src \<Longrightarrow> \<exists>name. placeholderIn name src"
  by (auto simp: lang_regexEnv placeholderIn_def)

lemma replaceEnvVariables_no_placeholder:
  assumes "\<And>name. \<not> placeholderIn name src"
  shows "replaceEnvVariables p src = Return src"
  unfolding replaceEnvVariables_def
  using assms by (intro Replace_no_match) (auto dest: placeholder_lang)

lemma replaceEnvVariables_v1_eq:
  "replaceEnvVariables_v1 p src =
     (case replaceEnvVariables p src of Panic e \<Rightarrow> Panic e | Return out \<Rightarrow> Return (out, None))"
  by (simp add: replaceEnvVariables_v1_def replaceEnvVariables_def)

lemma regexEnv_nonempty: "m \<in> lang regexEnv \<Longrightarrow> m \<noteq> []"
  by (auto simp: lang_regexEnv)

lemma regexEnv_dollar:
  "m \<in> lang regexEnv \<Longrightarrow> \<exists>t. m = CHR ''$'' # t \<and> CHR ''$'' \<notin> set t"
  by (auto simp: lang_regexEnv wordChars_def)

lemma matchPrefix_regexEnv_placeholder:
  assumes "w \<noteq> []" "set w \<subseteq> set wordChars"
  shows "matchPrefix regexEnv (''${'' @ w @ ''}'' @ rest) = Some (''${'' @ w @ ''}'', rest)"
proof -
  have m: "''${'' @ w @ ''}'' \<in> lang regexEnv" using assms by (auto simp: lang_regexEnv)
  have "matchPrefix regexEnv ((''${'' @ w @ ''}'') @ rest) = Some (''${'' @ w @ ''}'', rest)"
  proof (rule matchPrefix_unique [OF m])
    fix m' assume "m' \<in> lang regexEnv" "prefix m' ((''${'' @ w @ ''}'') @ rest)"
    then show "m' = ''${'' @ w @ ''}''"
      using m regexEnv_prefix_unique [of m' "''${'' @ w @ ''}''" "(''${'' @ w @ ''}'') @ rest"]
      by simp
  qed
  then show ?thesis by simp
qed

lemma regexEnv_boundary:
  assumes "s \<noteq> []"
  shows "matchPrefix regexEnv (s @ CHR ''$'' # r) =
         map_option (\<lambda>(m, rest). (m, rest @ CHR ''$'' # r)) (matchPrefix regexEnv s)"
proof (cases "matchPrefix regexEnv s")
  case (Some x)
  obtain m rest where x: "x = (m, rest)" by (cases x)
  with Some have s: "s = m @ rest" and m: "m \<in> lang regexEnv"
    by (auto dest: matchPrefix_append matchPrefix_lang)
  have "matchPrefix regexEnv (m @ (rest @ CHR ''$'' # r)) = Some (m, rest @ CHR ''$'' # r)"
  proof (rule matchPrefix_unique [OF m])
    fix m' assume "m' \<in> lang regexEnv" "prefix m' (m @ rest @ CHR ''$'' # r)"
    then show "m' = m" using m regexEnv_prefix_unique [of m' m "m @ rest @ CHR ''$'' # r"] by simp
  qed
  with Some x s show ?thesis by simp
next
  case None
  have "matchPrefix regexEnv (s @ CHR ''$'' # r) = None"
  proof (cases "matchPrefix regexEnv (s @ CHR ''$'' # r)")
    case (Some x)
    obtain m rest where x: "x = (m, rest)" by (cases x)
    with Some have eq: "s @ CHR ''$'' # r = m @ rest" and m: "m \<in> lang regexEnv"
      by (auto dest: matchPrefix_append matchPrefix_lang)
    from matchPrefix_None [OF None m] have np: "\<not> prefix m s" .
    from eq have "prefix m s \<or> prefix (s @ [CHR ''$'']) m"
      by (auto simp: append_eq_append_conv2 prefix_def Cons_eq_append_conv)
    with np obtain y where y: "m = s @ CHR ''$'' # y" by (auto simp: prefix_def)
    from regexEnv_dollar [OF m] obtain t where t: "m = CHR ''$'' # t" "CHR ''$'' \<notin> set t" by blast
    from assms obtain c s' where "s = c # s'" by (cases s) auto
    with y t have "t = s' @ CHR ''$'' # y" by simp
    with t(2) show ?thesis by simp
  qed simp
  with None show ?thesis by simp
qed

lemma Replace_regexEnv_boundary:
  "ReplaceAllStringFunc regexEnv (s @ CHR ''$'' # r) repl =
     (case ReplaceAllStringFunc regexEnv s repl of
        Panic e \<Rightarrow> Panic e
      | Return a \<Rightarrow>
          (case ReplaceAllStringFunc regexEnv (CHR ''$'' # r) repl of
             Panic e \<Rightarrow> Panic e
           | Return b \<Rightarrow> Return (a @ b)))"
proof (induction s rule: length_induct)
  case (1 s)
  show ?case
  proof (cases s)
    case Nil
    show ?thesis unfolding Nil
      by (simp split: outcome.splits)
  next
    case (Cons c cs)
    show ?thesis
    proof (cases "matchPrefix regexEnv s")
      case None
      with regexEnv_boundary [of s r] Cons
      have n: "matchPrefix regexEnv (c # cs @ CHR ''$'' # r) = None" by simp
      have ih: "ReplaceAllStringFunc regexEnv (cs @ CHR ''$'' # r) repl =
        (case ReplaceAllStringFunc regexEnv cs repl of
          Panic e \<Rightarrow> Panic e
        | Return a \<Rightarrow>
          (case ReplaceAllStringFunc regexEnv (CHR ''$'' # r) repl of
             Panic e \<Rightarrow> Panic e
           | Return b \<Rightarrow> Return (a @ b)))"
        using 1 Cons by simp
      from None Cons have n': "matchPrefix regexEnv (c # cs) = None" by simp
      show ?thesis unfolding Cons
        by (simp only: append_Cons Replace_None [OF n] Replace_None [OF n'] ih)
           (simp split: outcome.splits)
    next
      case (Some x)
      obtain m rest where x: "x = (m, rest)" by (cases x)
      with Some have s: "s = m @ rest" and m: "m \<in> lang regexEnv"
        by (auto dest: matchPrefix_append matchPrefix_lang)
      from m have ne: "m \<noteq> []" by (rule regexEnv_nonempty)
      with s have "length rest < length s" by simp
      with 1 have ih: "ReplaceAllStringFunc regexEnv (rest @ CHR ''$'' # r) repl =
        (case ReplaceAllStringFunc regexEnv rest repl of
          Panic e \<Rightarrow> Panic e
        | Return a \<Rightarrow>
          (case ReplaceAllStringFunc regexEnv (CHR ''$'' # r) repl of
             Panic e \<Rightarrow> Panic e
           | Return b \<Rightarrow> Return (a @ b)))" by simp
      from Some x Cons have s1: "matchPrefix regexEnv (c # cs) = Some (m, rest)" by simp
      from regexEnv_boundary [of s r] Some x Cons
      have s2: "matchPrefix regexEnv (c # cs @ CHR ''$'' # r) = Some (m, rest @ CHR ''$'' # r)"
        by simp
      show ?thesis unfolding Cons
        by (simp only: append_Cons Replace_Some [OF s1 ne] Replace_Some [OF s2 ne] ih)
           (simp split: outcome.splits)
    qed
  qed
qed

lemma replaceEnvVariables_panic:
  "replaceEnvVariables p src = Panic e \<Longrightarrow>
     \<exists>name. e = ErrVariableNotFound name \<and> Getenv p name = [] \<and> placeholderIn name src"
proof (induction src rule: length_induct)
  case (1 src)
  let ?f = "\<lambda>match. let envVar = submatch1 match; env = Getenv p envVar
                     in if env = [] then Panic (ErrVariableNotFound envVar) else Return env"
  from "1.prems" have pan: "ReplaceAllStringFunc regexEnv src ?f = Panic e"
    by (simp add: replaceEnvVariables_def)
  show ?case
  proof (cases src)
    case Nil
    with pan show ?thesis by simp
  next
    case (Cons c cs)
    show ?thesis
    proof (cases "matchPrefix regexEnv src")
      case None
      with Cons have n: "matchPrefix regexEnv (c # cs) = None" by simp
      from pan have "ReplaceAllStringFunc regexEnv cs ?f = Panic e"
        unfolding Cons by (simp only: Replace_None [OF n]) (simp split: outcome.splits)
      then have "replaceEnvVariables p cs = Panic e" by (simp add: replaceEnvVariables_def)
      with 1 Cons obtain name where
        "e = ErrVariableNotFound name" "Getenv p name = []" "placeholderIn name cs"
        by fastforce
      then show ?thesis unfolding Cons
        by (auto simp: placeholderIn_def intro: sublist_ConsI)
    next
      case (Some x)
      obtain m rest where x: "x = (m, rest)" by (cases x)
      with Some have s: "src = m @ rest" and m: "m \<in> lang regexEnv"
        by (auto dest: matchPrefix_append matchPrefix_lang)
      from m have ne: "m \<noteq> []" by (rule regexEnv_nonempty)
      from m obtain w where w: "w \<noteq> []" "set w \<subseteq> set wordChars" "m = ''${'' @ w @ ''}''"
        by (auto simp: lang_regexEnv)
      from Some x Cons have s1: "matchPrefix regexEnv (c # cs) = Some (m, rest)" by simp
      have pw: "placeholderIn w src"
        using w s by (auto simp: placeholderIn_def sublist_def intro: exI [of _ "[]"])
      show ?thesis
      proof (cases "Getenv p w = []")
        case True
        with pan have "e = ErrVariableNotFound w"
          unfolding Cons
          by (simp only: Replace_Some [OF s1 ne]) (simp add: w(3) submatch1_def)
        with True pw show ?thesis by blast
      next
        case False
        with pan have "ReplaceAllStringFunc regexEnv rest ?f = Panic e"
          unfolding Cons
          by (simp only: Replace_Some [OF s1 ne])
             (simp add: w(3) submatch1_def split: outcome.splits)
        then have "replaceEnvVariables p rest = Panic e" by (simp add: replaceEnvVariables_def)
        moreover from s ne have "length rest < length src" by simp
        ultimately obtain name where
          n: "e = ErrVariableNotFound name" "Getenv p name = []" "placeholderIn name rest"
          using 1 by blast
        from n(3) s have "placeholderIn name src"
          by (auto simp: placeholderIn_def intro: sublist_prependI)
        with n show ?thesis by blast
      qed
    qed
  qed
qed

lemma placeholderIn_dollar: "placeholderIn name s \<Longrightarrow> CHR ''$'' \<in> set s"
proof -
  assume "placeholderIn name s"
  then have "sublist (''${'' @ name @ ''}'') s" by (simp add: placeholderIn_def)
  then have "set (''${'' @ name @ ''}'') \<subseteq> set s" by (rule set_mono_sublist)
  then show ?thesis by simp
qed

lemma placeholderInI:
  assumes "name \<noteq> []" "set name \<subseteq> set wordChars"
  shows "placeholderIn name (pre @ ''${'' @ name @ ''}'' @ post)"
proof -
  have "sublist (''${'' @ name @ ''}'') (pre @ (''${'' @ name @ ''}'') @ post)"
    by (rule sublist_appendI)
  then show ?thesis using assms by (simp add: placeholderIn_def)
qed

lemma Getenv_empty_iff: "Getenv p k = [] \<longleftrightarrow> environ p k = None \<or> environ p k = Some []"
  by (simp add: Getenv_def split: option.splits)

lemma replaceEnvVariables_at_missing:
  assumes "Y \<noteq> []" "set Y \<subseteq> set wordChars" "Getenv p Y = []"
  shows "replaceEnvVariables p (''${'' @ Y @ ''}'' @ post) = Panic (ErrVariableNotFound Y)"
proof -
  have m: "matchPrefix regexEnv (CHR ''$'' # (CHR ''{'' # Y @ ''}'' @ post)) = Some (''${'' @ Y @ ''}'', post)"
    using matchPrefix_regexEnv_placeholder [OF assms(1,2), of post] by simp
  have ne: "''${'' @ Y @ ''}'' \<noteq> []" by simp
  show ?thesis
    unfolding replaceEnvVariables_def
    using assms(3) Replace_Some [OF m ne]
    by (simp add: submatch1_def)
qed

lemma replaceEnvVariables_split:
  "replaceEnvVariables p (pre @ CHR ''$'' # r) =
     (case replaceEnvVariables p pre of
        Panic e \<Rightarrow> Panic e
      | Return a \<Rightarrow>
          (case replaceEnvVariables p (CHR ''$'' # r) of
             Panic e \<Rightarrow> Panic e
           | Return b \<Rightarrow> Return (a @ b)))"
  unfolding replaceEnvVariables_def by (rule Replace_regexEnv_boundary)

lemma no_placeholder_iff:
  "(\<forall>name. \<not> placeholderIn name s) \<longleftrightarrow> list_all (\<lambda>t. matchPrefix regexEnv t = None) (suffixes s)"
proof
  assume no: "\<forall>name. \<not> placeholderIn name s"
  show "list_all (\<lambda>t. matchPrefix regexEnv t = None) (suffixes s)"
    unfolding list_all_iff
  proof
    fix t assume "t \<in> set (suffixes s)"
    then have suf: "suffix t s" by (simp add: in_set_suffixes)
    show "matchPrefix regexEnv t = None"
    proof (cases "matchPrefix regexEnv t")
      case (Some x)
      obtain m rest where "x = (m, rest)" by (cases x)
      with Some have "t = m @ rest" "m \<in> lang regexEnv"
        by (auto dest: matchPrefix_append matchPrefix_lang)
      with suf have "sublist m s" by (auto simp: suffix_def sublist_def)
      with \<open>m \<in> lang regexEnv\<close> no show ?thesis by (auto dest: placeholder_lang)
    qed simp
  qed
next
  assume all: "list_all (\<lambda>t. matchPrefix regexEnv t = None) (suffixes s)"
  show "\<forall>name. \<not> placeholderIn name s"
  proof (intro allI notI)
    fix name assume "placeholderIn name s"
    then obtain pre post where n: "name \<noteq> []" "set name \<subseteq> set wordChars"
      and s: "s = pre @ (''${'' @ name @ ''}'') @ post"
      by (auto simp: placeholderIn_def sublist_def)
    from s have "suffix ((''${'' @ name @ ''}'') @ post) s" by (simp add: suffix_def)
    with all have "matchPrefix regexEnv ((''${'' @ name @ ''}'') @ post) = None"
      by (simp add: list_all_iff)
    with matchPrefix_regexEnv_placeholder [OF n, of post] show False by simp
  qed
qed

section \<open>The loop over the directory entries\<close>

lemma Index_None_iff: "Index s sep = None \<longleftrightarrow> sep \<notin> set s"
  by (induction s) auto

lemma Index_Some:
  "Index s sep = Some i \<Longrightarrow>
     take i s = takeWhile (\<lambda>c. c \<noteq> sep) s \<and> drop (Suc i) s = tl (dropWhile (\<lambda>c. c \<noteq> sep) s)"
  by (induction s arbitrary: i) (auto split: if_splits)

lemma Cut_eq:
  "Cut s sep =
     (if sep \<in> set s
      then (takeWhile (\<lambda>c. c \<noteq> sep) s, tl (dropWhile (\<lambda>c. c \<noteq> sep) s), True)
      else (s, [], False))"
proof (cases "Index s sep")
  case None
  then show ?thesis by (simp add: Cut_def Index_None_iff [symmetric])
next
  case (Some i)
  then have "sep \<in> set s" using Index_None_iff [of s sep] by simp
  with Some Index_Some [OF Some] show ?thesis by (simp add: Cut_def)
qed

lemma readFiles_skip:
  "\<not> candidate foldRunes fileName entry \<Longrightarrow>
     readFiles foldRunes fs p dir fileName (entry # entries) = readFiles foldRunes fs p dir fileName entries"
  by (auto simp: Cut_eq candidate_def stemOf_def extensionOf_def)

lemma readFiles_hit:
  "candidate foldRunes fileName entry \<Longrightarrow>
     readFiles foldRunes fs p dir fileName (entry # entries) =
       (case ReadFile fs (Join dir entry) of
          Inl msg \<Rightarrow> Return (Inl (ErrReadingFile fileName))
        | Inr content \<Rightarrow>
            (case replaceEnvVariables p content of
               Panic e \<Rightarrow> Panic e
             | Return c \<Rightarrow> Return (Inr c)))"
  by (auto simp: Cut_eq candidate_def stemOf_def extensionOf_def)

lemma readFiles_first:
  assumes "\<forall>e\<in>set pre. \<not> candidate foldRunes fileName e" and "candidate foldRunes fileName entry"
  shows "readFiles foldRunes fs p dir fileName (pre @ entry # post) =
       (case ReadFile fs (Join dir entry) of
          Inl msg \<Rightarrow> Return (Inl (ErrReadingFile fileName))
        | Inr content \<Rightarrow>
            (case replaceEnvVariables p content of
               Panic e \<Rightarrow> Panic e
             | Return c \<Rightarrow> Return (Inr c)))"
  using assms by (induction pre) (simp_all add: readFiles_skip readFiles_hit del: readFiles.simps)

lemma readFiles_v1_skip:
  "\<not> candidate_v1 foldRunes profile entry \<Longrightarrow>
     readFiles_v1 foldRunes fs p dir profile (entry # entries) = readFiles_v1 foldRunes fs p dir profile entries"
  by (auto simp: Cut_eq candidate_v1_def stemOf_def extensionOf_def)

lemma readFiles_v1_hit:
  "candidate_v1 foldRunes profile entry \<Longrightarrow>
     readFiles_v1 foldRunes fs p dir profile (entry # entries) =
       (case ReadFile fs (Join dir entry) of
          Inl msg \<Rightarrow> Return (Inl (ErrReadingFile msg))
        | Inr content \<Rightarrow>
            (case replaceEnvVariables p content of
               Panic e \<Rightarrow> Panic e
             | Return c \<Rightarrow> Return (Inr c)))"
  by (auto simp: Cut_eq candidate_v1_def stemOf_def extensionOf_def replaceEnvVariables_v1_eq
      split: outcome.splits sum.splits)

lemma readFiles_v1_first:
  assumes "\<forall>e\<in>set pre. \<not> candidate_v1 foldRunes profile e" and "candidate_v1 foldRunes profile entry"
  shows "readFiles_v1 foldRunes fs p dir profile (pre @ entry # post) =
       (case ReadFile fs (Join dir entry) of
          Inl msg \<Rightarrow> Return (Inl (ErrReadingFile msg))
        | Inr content \<Rightarrow>
            (case replaceEnvVariables p content of
               Panic e \<Rightarrow> Panic e
             | Return c \<Rightarrow> Return (Inr c)))"
  using assms
  by (induction pre) (simp_all add: readFiles_v1_skip readFiles_v1_hit del: readFiles_v1.simps)

lemma filter_singleton_split:
  assumes "filter P xs = [x]"
  shows "\<exists>pre post. xs = pre @ x # post \<and> (\<forall>e\<in>set pre. \<not> P e) \<and> P x"
  using assms by (auto simp: filter_eq_Cons_iff)

lemma read_dir:
  "ReadDir fs (if length basePath > 0 then basePath ! 0 else ''config'') = Inr entries \<Longrightarrow>
   read foldRunes fs p fileName basePath =
     readFiles foldRunes fs p (if length basePath > 0 then basePath ! 0 else ''config'') fileName entries"
  by (simp add: read_def Let_def)

lemmas eval_defs =
  re_defs matchPrefix.simps ReplaceAllStringFunc.simps(2) replaceEnvVariables_def
  submatch1_def Getenv_def

lemmas candidate_defs =
  candidate_def candidate_v1_def stemOf_def extensionOf_def excludeExtensions_def
  supportedExtensions_def foldEq_def

section \<open>The pattern of an env-file line\<close>

lemma lang_SeqE:
  assumes "x \<in> lang (Seq r s)"
  obtains u v where "x = u @ v" "u \<in> lang r" "v \<in> lang s"
  using assms by auto

lemma lang_regexEnvFromFile:
  assumes "w \<in> lang regexEnvFromFile"
  obtains a k b r where "w = a @ k @ b @ CHR ''='' # r" "set a \<subseteq> set perlSpace" "k \<noteq> []"
    "set k \<subseteq> set keyChars" "set b \<subseteq> set perlSpace"
proof -
  define r4 where
    "r4 = Seq (Star (Class perlSpace)) (Seq (Optional (Star AnyNotNL)) (Star (Class perlSpace)))"
  define r3 where "r3 = Seq (Lit CHR ''='') r4"
  define r2 where "r2 = Seq (Star (Class perlSpace)) r3"
  define r1 where "r1 = Seq (Many1 (Class keyChars)) r2"
  have re: "regexEnvFromFile = Seq (Star (Class perlSpace)) r1"
    by (simp add: regexEnvFromFile_def r1_def r2_def r3_def r4_def keyChars_def)
  from assms have "w \<in> lang (Seq (Star (Class perlSpace)) r1)" by (simp only: re)
  then obtain a x1 where 1: "w = a @ x1" "a \<in> lang (Star (Class perlSpace))" "x1 \<in> lang r1"
    by (rule lang_SeqE)
  from 1(3) have "x1 \<in> lang (Seq (Many1 (Class keyChars)) r2)" by (simp only: r1_def)
  then obtain k x2 where 2: "x1 = k @ x2" "k \<in> lang (Many1 (Class keyChars))" "x2 \<in> lang r2"
    by (rule lang_SeqE)
  from 2(3) have "x2 \<in> lang (Seq (Star (Class perlSpace)) r3)" by (simp only: r2_def)
  then obtain b x3 where 3: "x2 = b @ x3" "b \<in> lang (Star (Class perlSpace))" "x3 \<in> lang r3"
    by (rule lang_SeqE)
  from 3(3) have "x3 \<in> lang (Seq (Lit CHR ''='') r4)" by (simp only: r3_def)
  then obtain r where 4: "x3 = CHR ''='' # r"
    by (simp only: lang_Lit_Seq) blast
  from 1(2) have a: "set a \<subseteq> set perlSpace" by (simp only: lang_Star_Class)
  from 2(2) have k: "k \<noteq> []" "set k \<subseteq> set keyChars"
    using lang_Many1_Class [of k keyChars] by blast+
  from 3(2) have b: "set b \<subseteq> set perlSpace" by (simp only: lang_Star_Class)
  have "w = a @ k @ b @ CHR ''='' # r" using 1(1) 2(1) 3(1) 4 by simp
  then show thesis using a k b by (rule that)
qed

lemma eq_not_space_key: "CHR ''='' \<notin> set perlSpace" "CHR ''='' \<notin> set keyChars"
  by (simp_all add: perlSpace_def keyChars_def wordChars_def)

lemma MatchString_key:
  assumes "MatchString regexEnvFromFile line"
  shows "CHR ''='' \<in> set line \<and>
         (\<exists>c \<in> set (takeWhile (\<lambda>c. c \<noteq> CHR ''='') line). c \<in> set keyChars)"
proof -
  from assms have "line \<in> lang regexEnvFromFile" by (simp only: MatchString_lang)
  then obtain a k b r where w: "line = a @ k @ b @ CHR ''='' # r" "set a \<subseteq> set perlSpace"
      "k \<noteq> []" "set k \<subseteq> set keyChars" "set b \<subseteq> set perlSpace"
    by (rule lang_regexEnvFromFile)
  have "CHR ''='' \<notin> set a" using w(2) eq_not_space_key(1) by blast
  moreover have "CHR ''='' \<notin> set k" using w(4) eq_not_space_key(2) by blast
  moreover have "CHR ''='' \<notin> set b" using w(5) eq_not_space_key(1) by blast
  ultimately have ne: "\<And>x. x \<in> set (a @ k @ b) \<Longrightarrow> x \<noteq> CHR ''=''" by auto
  have "takeWhile (\<lambda>c. c \<noteq> CHR ''='') ((a @ k @ b) @ CHR ''='' # r) =
          (a @ k @ b) @ takeWhile (\<lambda>c. c \<noteq> CHR ''='') (CHR ''='' # r)"
    using ne by (rule takeWhile_append2)
  then have tw: "takeWhile (\<lambda>c. c \<noteq> CHR ''='') line = a @ k @ b"
    unfolding w(1) by simp
  from w(3) obtain c where c: "c \<in> set k" by (cases k) auto
  with w(4) have ck: "c \<in> set keyChars" by blast
  from c have "c \<in> set (a @ k @ b)" by simp
  then have "c \<in> set (takeWhile (\<lambda>c. c \<noteq> CHR ''='') line)" by (simp only: tw)
  with ck have 2: "\<exists>c \<in> set (takeWhile (\<lambda>c. c \<noteq> CHR ''='') line). c \<in> set keyChars" by blast
  have 1: "CHR ''='' \<in> set line" unfolding w(1) by simp
  from 1 2 show ?thesis by (rule conjI)
qed

lemma SplitN_2:
  "SplitN s sep 2 =
     (if sep \<in> set s then [takeWhile (\<lambda>c. c \<noteq> sep) s, tl (dropWhile (\<lambda>c. c \<noteq> sep) s)] else [s])"
proof (cases "Index s sep")
  case None
  then show ?thesis by (simp add: numeral_2_eq_2 Index_None_iff [symmetric])
next
  case (Some i)
  then have "sep \<in> set s" using Index_None_iff [of s sep] by simp
  with Some Index_Some [OF Some] show ?thesis by (simp add: numeral_2_eq_2)
qed

lemma split_at_first:
  "sep \<in> set s \<Longrightarrow> s = takeWhile (\<lambda>c. c \<noteq> sep) s @ sep # tl (dropWhile (\<lambda>c. c \<noteq> sep) s)"
proof -
  assume "sep \<in> set s"
  then have "dropWhile (\<lambda>c. c \<noteq> sep) s \<noteq> []" by simp
  moreover from this have "hd (dropWhile (\<lambda>c. c \<noteq> sep) s) = sep"
    using hd_dropWhile [of "\<lambda>c. c \<noteq> sep" s] by simp
  ultimately have "dropWhile (\<lambda>c. c \<noteq> sep) s = sep # tl (dropWhile (\<lambda>c. c \<noteq> sep) s)"
    by (cases "dropWhile (\<lambda>c. c \<noteq> sep) s") auto
  then show ?thesis using takeWhile_dropWhile_id [of "\<lambda>c. c \<noteq> sep" s] by simp
qed

lemma setEnvVarFromLine_accept:
  assumes "MatchString regexEnvFromFile line"
  shows "setEnvVarFromLine regexEnvFromFile line p =
           Setenv (takeWhile (\<lambda>c. c \<noteq> CHR ''='') line) (tl (dropWhile (\<lambda>c. c \<noteq> CHR ''='') line)) p"
    and "setEnvVarFromLine_v1 setEnvFunc regexEnvFromFile line p =
           setEnvFunc (takeWhile (\<lambda>c. c \<noteq> CHR ''='') line) (tl (dropWhile (\<lambda>c. c \<noteq> CHR ''='') line)) p"
  using assms MatchString_key [OF assms]
  by (simp_all add: setEnvVarFromLine_def setEnvVarFromLine_v1_def SplitN_2)

lemma setEnvVarFromLine_reject:
  assumes "CHR ''='' \<notin> set line \<or> \<not> MatchString regexEnvFromFile line"
  shows "setEnvVarFromLine regexEnvFromFile line p = (Some (ErrInvalidEnvFormat line), p)"
  using assms by (auto simp: setEnvVarFromLine_def SplitN_2)

section \<open>The loop over the lines and the open files\<close>

lemma allWhitespace_leading:
  assumes "allWhitespace s" and "s \<noteq> []"
  shows "leadingSpace s \<noteq> 0"
proof -
  from assms(1) obtain rs where rs: "set rs \<subseteq> set spaceRunes" "s = concat rs"
    unfolding allWhitespace_def by blast
  from rs(1) have ne: "\<forall>r\<in>set rs. r \<noteq> []" by (auto dest: spaceRunes_nonempty)
  from assms(2) rs(2) obtain r rs' where c: "rs = r # rs'" by (cases rs) auto
  with rs have "r \<in> set spaceRunes" "s = r @ concat rs'" by simp_all
  then have "leadingSpace s = length r" by (simp add: leadingSpace_rune)
  moreover from c ne have "r \<noteq> []" by simp
  ultimately show ?thesis by simp
qed

lemma not_comment:
  assumes "leadingSpace (c # cs) = 0" and "c \<noteq> CHR ''#''"
  shows "\<not> isCommentOrEmpty (c # cs)"
proof -
  from assms(1) have "\<not> allWhitespace (c # cs)" using allWhitespace_leading by blast
  with assms(2) show ?thesis
    by (simp add: isCommentOrEmpty_def HasPrefix_def TrimSpace_empty_iff)
qed

lemma parseEnvFile_append:
  "parseEnvFile (Scanner pre None) p = (None, p') \<Longrightarrow>
     parseEnvFile (Scanner (pre @ rest) err) p = parseEnvFile (Scanner rest err) p'"
proof (induction pre arbitrary: p)
  case Nil
  then show ?case by simp
next
  case (Cons line pre)
  show ?case
  proof (cases "isCommentOrEmpty line")
    case True
    with Cons show ?thesis by simp
  next
    case False
    obtain e q where s: "setEnvVarFromLine regexEnvFromFile line p = (e, q)"
      by (cases "setEnvVarFromLine regexEnvFromFile line p")
    with False Cons.prems have "e = None" by (cases e) simp_all
    with False s Cons.prems have "parseEnvFile (Scanner pre None) q = (None, p')" by simp
    from Cons.IH [OF this] False s \<open>e = None\<close> show ?thesis by simp
  qed
qed

lemma Setenv_dom:
  "Setenv key val p = (r, p') \<Longrightarrow> dom (environ p) \<subseteq> dom (environ p') \<and> openFiles p' = openFiles p"
  by (auto simp: Setenv_def split: if_splits)

lemma Setenv_sets:
  "Setenv key val p = (None, p') \<Longrightarrow> key \<in> dom (environ p')"
  by (auto simp: Setenv_def split: if_splits)

lemma setEnvVarFromLine_dom:
  "setEnvVarFromLine re line p = (r, p') \<Longrightarrow>
     dom (environ p) \<subseteq> dom (environ p') \<and> openFiles p' = openFiles p"
  unfolding setEnvVarFromLine_def Let_def
  by (auto split: if_splits dest: Setenv_dom)

lemma parseEnvFile_dom:
  "parseEnvFile sc p = (r, p') \<Longrightarrow>
     dom (environ p) \<subseteq> dom (environ p') \<and> openFiles p' = openFiles p"
proof (induction sc p arbitrary: r p' rule: parseEnvFile.induct)
  case (1 err p)
  then show ?case by (auto split: option.splits)
next
  case (2 line rest err p)
  show ?case
  proof (cases "isCommentOrEmpty line")
    case True
    with 2 show ?thesis by simp
  next
    case False
    obtain e q where s: "setEnvVarFromLine regexEnvFromFile line p = (e, q)"
      by (cases "setEnvVarFromLine regexEnvFromFile line p")
    from setEnvVarFromLine_dom [OF s]
    have d: "dom (environ p) \<subseteq> dom (environ q)" "openFiles q = openFiles p" by simp_all
    show ?thesis
    proof (cases e)
      case None
      with False s "2.prems" have "parseEnvFile (Scanner rest err) q = (r, p')" by simp
      from "2.IH"(2) [OF False s [symmetric] None this] d show ?thesis by auto
    next
      case (Some x)
      with False s "2.prems" have "p' = q" by simp
      with d show ?thesis by simp
    qed
  qed
qed

lemma parseEnvFile_keys_set:
  "parseEnvFile (Scanner pre None) p = (None, p') \<Longrightarrow> l \<in> set pre \<Longrightarrow> \<not> isCommentOrEmpty l \<Longrightarrow>
     takeWhile (\<lambda>c. c \<noteq> CHR ''='') l \<in> dom (environ p')"
proof (induction pre arbitrary: p)
  case Nil
  then show ?case by simp
next
  case (Cons line pre)
  show ?case
  proof (cases "isCommentOrEmpty line")
    case True
    with Cons.prems have "parseEnvFile (Scanner pre None) p = (None, p')" "l \<in> set pre"
      by auto
    with Cons.IH Cons.prems(3) show ?thesis by blast
  next
    case False
    obtain e q where s: "setEnvVarFromLine regexEnvFromFile line p = (e, q)"
      by (cases "setEnvVarFromLine regexEnvFromFile line p")
    with False Cons.prems(1) have e: "e = None" by (cases e) simp_all
    with False s Cons.prems(1) have rest: "parseEnvFile (Scanner pre None) q = (None, p')" by simp
    show ?thesis
    proof (cases "l = line")
      case True
      have m: "MatchString regexEnvFromFile line"
        using s e by (auto simp: setEnvVarFromLine_def Let_def split: if_splits)
      from s e setEnvVarFromLine_accept(1) [OF m, of p]
      have "takeWhile (\<lambda>c. c \<noteq> CHR ''='') line \<in> dom (environ q)"
        by (auto dest: Setenv_sets)
      with parseEnvFile_dom [OF rest] True show ?thesis by blast
    next
      case False
      with Cons.prems(2) have "l \<in> set pre" by simp
      with Cons.IH [OF rest] Cons.prems(3) show ?thesis by blast
    qed
  qed
qed

lemma MatchString_no_key:
  assumes "\<forall>c \<in> set (takeWhile (\<lambda>c. c \<noteq> CHR ''='') line). c \<notin> set keyChars"
  shows "\<not> MatchString regexEnvFromFile line"
  using assms MatchString_key [of line] by blast

lemma invalid_line_not_skipped: "\<not> isCommentOrEmpty ''APP_NAME:TestApp''"
  by (rule not_comment) (simp_all add: leadingSpace_def spaceRunes_def)

lemma valid_line_not_skipped: "\<not> isCommentOrEmpty ''APP_NAME=TestApp''"
  by (rule not_comment) (simp_all add: leadingSpace_def spaceRunes_def)

lemma comment_line_skipped: "isCommentOrEmpty ''# settings''"
  by (simp add: isCommentOrEmpty_def HasPrefix_def)

lemma parseEnvFile_valid_prefix:
  "parseEnvFile (Scanner [''# settings'', ''APP_NAME=TestApp''] None)
     \<lparr>environ = Map.empty, openFiles = []\<rparr> =
   (None, \<lparr>environ = [''APP_NAME'' \<mapsto> ''TestApp''], openFiles = []\<rparr>)"
  by (simp add: comment_line_skipped valid_line_not_skipped setEnvVarFromLine_def eval_defs numeral_2_eq_2 Setenv_def)

lemma setEnvVarFromLine_error:
  "setEnvVarFromLine re line p = (Some e, p') \<Longrightarrow>
     e = ErrInvalidEnvFormat line \<or> e = Foreign ''setenv: invalid argument''"
  unfolding setEnvVarFromLine_def Let_def Setenv_def
  by (auto split: if_splits)

lemma parseEnvFile_error:
  "parseEnvFile sc p = (Some e, p') \<Longrightarrow>
     (\<exists>line. e = ErrInvalidEnvFormat line) \<or> e = Foreign ''setenv: invalid argument'' \<or>
     (\<exists>msg. e = ErrScan msg)"
proof (induction sc p rule: parseEnvFile.induct)
  case (1 err p)
  then show ?case by (auto split: option.splits)
next
  case (2 line rest err p)
  show ?case
  proof (cases "isCommentOrEmpty line")
    case True
    with 2 show ?thesis by simp
  next
    case False
    obtain x q where s: "setEnvVarFromLine regexEnvFromFile line p = (x, q)"
      by (cases "setEnvVarFromLine regexEnvFromFile line p")
    show ?thesis
    proof (cases x)
      case None
      with False s "2.prems" have "parseEnvFile (Scanner rest err) q = (Some e, p')" by simp
      from "2.IH"(2) [OF False s [symmetric] None this] show ?thesis .
    next
      case (Some y)
      with False s "2.prems" have "y = e" by simp
      with Some s setEnvVarFromLine_error [of regexEnvFromFile line p e q] show ?thesis by auto
    qed
  qed
qed

lemma openFile_cases:
  "openFile fs path p = (r, p') \<Longrightarrow>
     (r = Inl (ErrOpeningEnvFile path) \<and> p' = p) \<or>
     (\<exists>f. r = Inr f \<and> osPath f = path \<and> p' = p\<lparr>openFiles := path # openFiles p\<rparr>)"
  unfolding openFile_def osOpen_def
  by (auto split: sum.splits prod.splits)

text \<open>
  What \<^verbatim>\<open>LoadEnv\<close> leaves open: nothing when it returns no error or the error of
  \<^verbatim>\<open>openFile\<close>; after any other error (a rejected line, a failed setter, a read
  error of the scanner) the file it was reading.
\<close>

lemma loadEnvFiles_openFiles:
  "loadEnvFiles fs dir files p = (r, p') \<Longrightarrow>
     (case r of
        None \<Rightarrow> openFiles p' = openFiles p
      | Some (ErrOpeningEnvFile path) \<Rightarrow> openFiles p' = openFiles p
      | Some e \<Rightarrow> (\<exists>f. f \<in> set files \<and> openFiles p' = Join dir f # openFiles p))"
proof (induction files arbitrary: p)
  case Nil
  then show ?case by simp
next
  case (Cons envFile files)
  obtain res p1 where res: "openFile fs (Join dir envFile) p = (res, p1)"
    by (cases "openFile fs (Join dir envFile) p")
  from openFile_cases [OF res] show ?case
  proof (elim disjE conjE exE)
    assume "res = Inl (ErrOpeningEnvFile (Join dir envFile))" "p1 = p"
    with res Cons.prems show ?thesis by (auto simp: Let_def)
  next
    fix f assume f: "res = Inr f" "osPath f = Join dir envFile"
      "p1 = p\<lparr>openFiles := Join dir envFile # openFiles p\<rparr>"
    obtain x p2 where x: "parseEnvFile (NewScanner f) p1 = (x, p2)"
      by (cases "parseEnvFile (NewScanner f) p1")
    from parseEnvFile_dom [OF x] f(3)
    have op2: "openFiles p2 = Join dir envFile # openFiles p" by simp
    show ?thesis
    proof (cases x)
      case None
      with res f x Cons.prems
      have rest: "loadEnvFiles fs dir files (Close f p2) = (r, p')" by (simp add: Let_def)
      from op2 f(2) have "openFiles (Close f p2) = openFiles p" by (simp add: Close_def)
      with Cons.IH [OF rest] show ?thesis
        by (auto split: option.splits error.splits)
    next
      case (Some e)
      with res f x Cons.prems have r: "r = Some e" "p' = p2" by (simp_all add: Let_def)
      from x Some parseEnvFile_error [of "NewScanner f" p1 e p2]
      have "(\<exists>line. e = ErrInvalidEnvFormat line) \<or> e = Foreign ''setenv: invalid argument'' \<or>
            (\<exists>msg. e = ErrScan msg)" by simp
      with r op2 show ?thesis by auto
    qed
  qed
qed

section \<open>A placeholder whose variable is set\<close>

lemma replaceEnvVariables_at_set:
  assumes "X \<noteq> []" "set X \<subseteq> set wordChars" "environ p X = Some V" "V \<noteq> []"
  shows "replaceEnvVariables p (''${'' @ X @ ''}'' @ post) =
           (case replaceEnvVariables p post of Panic e \<Rightarrow> Panic e | Return b \<Rightarrow> Return (V @ b))"
proof -
  have m: "matchPrefix regexEnv (CHR ''$'' # (CHR ''{'' # X @ ''}'' @ post)) = Some (''${'' @ X @ ''}'', post)"
    using matchPrefix_regexEnv_placeholder [OF assms(1,2), of post] by simp
  have ne: "''${'' @ X @ ''}'' \<noteq> []" by simp
  from assms(3,4) have g: "Getenv p X = V" "Getenv p X \<noteq> []" by (simp_all add: Getenv_def)
  show ?thesis
    unfolding replaceEnvVariables_def
    using g Replace_Some [OF m ne]
    by (simp add: submatch1_def)
qed

text \<open>
  What a substitution returns at a placeholder whose variable is set: the text before
  it and the text after it are substituted on their own, and the value stands between
  them as it is.
\<close>

lemma replaceEnvVariables_placeholder_set:
  assumes "X \<noteq> []" "set X \<subseteq> set wordChars" "environ p X = Some V" "V \<noteq> []"
  shows "replaceEnvVariables p (pre @ ''${'' @ X @ ''}'' @ post) =
           (case replaceEnvVariables p pre of
              Panic e \<Rightarrow> Panic e
            | Return a \<Rightarrow>
                (case replaceEnvVariables p post of
                   Panic e \<Rightarrow> Panic e
                 | Return b \<Rightarrow> Return (a @ V @ b)))"
proof -
  have "replaceEnvVariables p (pre @ CHR ''$'' # (CHR ''{'' # X @ ''}'' @ post)) =
     (case replaceEnvVariables p pre of
        Panic e \<Rightarrow> Panic e
      | Return a \<Rightarrow>
          (case replaceEnvVariables p (CHR ''$'' # (CHR ''{'' # X @ ''}'' @ post)) of
             Panic e \<Rightarrow> Panic e
           | Return b \<Rightarrow> Return (a @ b)))"
    by (rule replaceEnvVariables_split)
  moreover have "replaceEnvVariables p (CHR ''$'' # (CHR ''{'' # X @ ''}'' @ post)) =
           (case replaceEnvVariables p post of Panic e \<Rightarrow> Panic e | Return b \<Rightarrow> Return (V @ b))"
    using replaceEnvVariables_at_set [OF assms, of post] by simp
  ultimately show ?thesis by (simp split: outcome.splits)
qed

section \<open>An invalid line after a prefix of the file\<close>

text \<open>
  An error that the lines before have raised is the result, whatever follows them.
\<close>

lemma parseEnvFile_append_fail:
  "parseEnvFile (Scanner pre None) p = (Some e, p') \<Longrightarrow>
     parseEnvFile (Scanner (pre @ rest) err) p = (Some e, p')"
proof (induction pre arbitrary: p)
  case Nil
  then show ?case by simp
next
  case (Cons line pre)
  show ?case
  proof (cases "isCommentOrEmpty line")
    case True
    with Cons.prems have "parseEnvFile (Scanner pre None) p = (Some e, p')" by simp
    from Cons.IH [OF this] True show ?thesis by simp
  next
    case False
    obtain x q where s: "setEnvVarFromLine regexEnvFromFile line p = (x, q)"
      by (cases "setEnvVarFromLine regexEnvFromFile line p")
    show ?thesis
    proof (cases x)
      case None
      with False s Cons.prems have "parseEnvFile (Scanner pre None) q = (Some e, p')" by simp
      from Cons.IH [OF this] False s None show ?thesis by simp
    next
      case (Some y)
      with False s Cons.prems show ?thesis by simp
    qed
  qed
qed

text \<open>
  At a line that is not skipped and not accepted the loop returns: with the error of an
  earlier line when there is one, else with the format error of this line and the
  environment that the earlier lines have made.
\<close>

lemma parseEnvFile_at_invalid_line:
  assumes "\<not> isCommentOrEmpty bad"
    and "CHR ''='' \<notin> set bad \<or> \<not> MatchString regexEnvFromFile bad"
  shows "parseEnvFile (Scanner (pre @ bad # post) err) p =
           (case parseEnvFile (Scanner pre None) p of
              (Some e, p') \<Rightarrow> (Some e, p')
            | (None, p') \<Rightarrow> (Some (ErrInvalidEnvFormat bad), p'))"
proof -
  obtain x p' where r: "parseEnvFile (Scanner pre None) p = (x, p')"
    by (cases "parseEnvFile (Scanner pre None) p")
  show ?thesis
  proof (cases x)
    case None
    from assms(2)
    have "setEnvVarFromLine regexEnvFromFile bad p' = (Some (ErrInvalidEnvFormat bad), p')"
      by (rule setEnvVarFromLine_reject)
    with assms(1)
    have "parseEnvFile (Scanner (bad # post) err) p' = (Some (ErrInvalidEnvFormat bad), p')"
      by simp
    with parseEnvFile_append [of pre p p' "bad # post" err] r None show ?thesis by simp
  next
    case (Some e)
    with parseEnvFile_append_fail [of pre p e p' "bad # post" err] r show ?thesis by simp
  qed
qed

text \<open>
  \<^verbatim>\<open>LoadEnv\<close> on its first file, once \<^verbatim>\<open>os.Open\<close> has succeeded.
\<close>

lemma LoadEnv_first_file:
  assumes "Open fs (Join ''.'' (hd (if length envFiles = 0 then [''.env''] else envFiles))) = Inr (ls, err)"
  shows "LoadEnv fs envFiles p =
           (case parseEnvFile (Scanner ls err)
                   (p\<lparr>openFiles := Join ''.'' (hd (if length envFiles = 0 then [''.env''] else envFiles)) # openFiles p\<rparr>) of
              (Some e, p2) \<Rightarrow> (Some e, p2)
            | (None, p2) \<Rightarrow>
                loadEnvFiles fs ''.'' (tl (if length envFiles = 0 then [''.env''] else envFiles))
                  (p2\<lparr>openFiles := remove1 (Join ''.'' (hd (if length envFiles = 0 then [''.env''] else envFiles))) (openFiles p2)\<rparr>))"
proof (cases envFiles)
  case Nil
  with assms show ?thesis
    by (simp add: LoadEnv_def openFile_def osOpen_def NewScanner_def Close_def Let_def
        split: prod.splits option.splits)
next
  case (Cons a as)
  with assms show ?thesis
    by (simp add: LoadEnv_def openFile_def osOpen_def NewScanner_def Close_def Let_def
        split: prod.splits option.splits)
qed

section \<open>The claims\<close>

text \<open>
  C3, as the specification has it: a line is skipped as comment or blank exactly when
  it is all white space or its first character after optional white space is \<open>#\<close>.
  The classifier tests \<^verbatim>\<open>strings.HasPrefix(line, "#")\<close> on the line as it is, so the
  line \<^verbatim>\<open>" # comment"\<close>, a blank followed by \<open>#\<close>, is not skipped.
\<close>

theorem isCommentOrEmpty_indented_hash_counterexample:
  "'' # comment'' = '' '' @ CHR ''#'' # '' comment'' \<and> allWhitespace '' '' \<and>
   \<not> isCommentOrEmpty '' # comment''"
  using allWhitespace_space indented_comment_not_skipped by simp

text \<open>
  C3, amended: a line is skipped as comment or blank exactly when its first byte is
  \<open>#\<close> or it is all white space; every other line, also one whose \<open>#\<close> follows white
  space, is a candidate assignment.
\<close>

theorem isCommentOrEmpty_iff_hash_first_or_blank:
  "isCommentOrEmpty line \<longleftrightarrow> (\<exists>rest. line = CHR ''#'' # rest) \<or> allWhitespace line"
  by (auto simp: isCommentOrEmpty_def HasPrefix_def TrimSpace_empty_iff prefix_def)

theorem isCommentOrEmpty_iff_witness:
  "isCommentOrEmpty ''# comment'' \<and> isCommentOrEmpty '' '' \<and> \<not> allWhitespace '' # comment''"
  using isCommentOrEmpty_iff_hash_first_or_blank [of "''# comment''"]
    isCommentOrEmpty_iff_hash_first_or_blank [of "'' ''"]
    isCommentOrEmpty_iff_hash_first_or_blank [of "'' # comment''"]
    allWhitespace_space indented_comment_not_skipped
  by simp

text \<open>
  C4, as the specification has it: for every text that contains \<^verbatim>\<open>${Y}\<close> with \<open>Y\<close>
  unset or empty, the substitution panics with \<open>VariableNotFoundError\<close> naming \<open>Y\<close>.
  The text is scanned from the left and the first missing variable panics: in
  \<^verbatim>\<open>${A} ${B}\<close> with neither variable set the panic names \<open>A\<close>, not \<open>B\<close>.
\<close>

theorem replaceEnvVariables_names_first_missing_counterexample:
  "placeholderIn ''B'' ''${A} ${B}'' \<and>
   environ \<lparr>environ = Map.empty, openFiles = []\<rparr> ''B'' = None \<and>
   replaceEnvVariables \<lparr>environ = Map.empty, openFiles = []\<rparr> ''${A} ${B}'' =
     Panic (ErrVariableNotFound ''A'') \<and>
   replaceEnvVariables \<lparr>environ = Map.empty, openFiles = []\<rparr> ''${A} ${B}'' \<noteq>
     Panic (ErrVariableNotFound ''B'')"
proof -
  have "placeholderIn ''B'' (''${A} '' @ ''${'' @ ''B'' @ ''}'' @ [])"
    by (rule placeholderInI) (simp_all add: wordChars_def)
  then have "placeholderIn ''B'' ''${A} ${B}''" by simp
  moreover have "replaceEnvVariables \<lparr>environ = Map.empty, openFiles = []\<rparr> ''${A} ${B}'' =
     Panic (ErrVariableNotFound ''A'')"
    by (simp add: replaceEnvVariables_def re_defs submatch1_def Getenv_def matchPrefix.simps
        ReplaceAllStringFunc.simps(2))
  ultimately show ?thesis by simp
qed

text \<open>
  C4, amended: for every text that contains \<^verbatim>\<open>${Y}\<close> with \<open>Y\<close> unset or empty,
  the substitution does not return: it panics with \<open>VariableNotFoundError\<close> naming a
  placeholder of the text whose variable is unset or empty, and that name is \<open>Y\<close> when
  every placeholder in the text before this occurrence has a non-empty value. Both
  versions of \<^verbatim>\<open>replaceEnvVariables\<close> do so.
\<close>

theorem replaceEnvVariables_panics_on_missing_variable:
  assumes "Y \<noteq> []" and "set Y \<subseteq> set wordChars"
    and "content = pre @ ''${'' @ Y @ ''}'' @ post"
    and "environ p Y = None \<or> environ p Y = Some []"
  shows "(\<exists>Z. replaceEnvVariables p content = Panic (ErrVariableNotFound Z) \<and>
              replaceEnvVariables_v1 p content = Panic (ErrVariableNotFound Z) \<and>
              (environ p Z = None \<or> environ p Z = Some []) \<and> placeholderIn Z content) \<and>
         ((\<forall>Z. placeholderIn Z pre \<longrightarrow> environ p Z \<noteq> None \<and> environ p Z \<noteq> Some []) \<longrightarrow>
            replaceEnvVariables p content = Panic (ErrVariableNotFound Y) \<and>
            replaceEnvVariables_v1 p content = Panic (ErrVariableNotFound Y))"
proof -
  from assms(4) have gy: "Getenv p Y = []" by (simp add: Getenv_empty_iff)
  have at: "replaceEnvVariables p (CHR ''$'' # CHR ''{'' # Y @ ''}'' @ post) = Panic (ErrVariableNotFound Y)"
    using replaceEnvVariables_at_missing [OF assms(1,2) gy, of post] by simp
  have split: "replaceEnvVariables p content =
     (case replaceEnvVariables p pre of Panic e \<Rightarrow> Panic e | Return a \<Rightarrow> Panic (ErrVariableNotFound Y))"
    using replaceEnvVariables_split [of p pre "CHR ''{'' # Y @ ''}'' @ post"] at assms(3)
    by (simp split: outcome.splits)
  have py: "placeholderIn Y content"
    unfolding assms(3) using assms(1,2) by (rule placeholderInI)
  show ?thesis
  proof (cases "replaceEnvVariables p pre")
    case (Return a)
    with split have r: "replaceEnvVariables p content = Panic (ErrVariableNotFound Y)" by simp
    then have "replaceEnvVariables_v1 p content = Panic (ErrVariableNotFound Y)"
      by (simp add: replaceEnvVariables_v1_eq)
    with r assms(4) py show ?thesis by blast
  next
    case (Panic e)
    then obtain Z where z: "e = ErrVariableNotFound Z" "Getenv p Z = []" "placeholderIn Z pre"
      using replaceEnvVariables_panic by blast
    from Panic split z(1) have r: "replaceEnvVariables p content = Panic (ErrVariableNotFound Z)"
      by simp
    then have r1: "replaceEnvVariables_v1 p content = Panic (ErrVariableNotFound Z)"
      by (simp add: replaceEnvVariables_v1_eq)
    from z(3) assms(3) have pz: "placeholderIn Z content"
      by (auto simp: placeholderIn_def sublist_append)
    from z(2) have ez: "environ p Z = None \<or> environ p Z = Some []"
      by (simp add: Getenv_empty_iff)
    have "\<not> (\<forall>Z. placeholderIn Z pre \<longrightarrow> environ p Z \<noteq> None \<and> environ p Z \<noteq> Some [])"
      using z(3) ez by blast
    with r r1 pz ez show ?thesis by blast
  qed
qed

theorem replaceEnvVariables_panics_witness:
  "replaceEnvVariables \<lparr>environ = Map.empty, openFiles = []\<rparr> ''name: ${APP_NAME}'' =
     Panic (ErrVariableNotFound ''APP_NAME'')"
proof -
  have "\<forall>Z. placeholderIn Z ''name: '' \<longrightarrow>
          environ \<lparr>environ = Map.empty, openFiles = []\<rparr> Z \<noteq> None \<and>
          environ \<lparr>environ = Map.empty, openFiles = []\<rparr> Z \<noteq> Some []"
    by (auto dest: placeholderIn_dollar)
  with replaceEnvVariables_panics_on_missing_variable
         [of "''APP_NAME''" "''name: ${APP_NAME}''" "''name: ''" "[]"
             "\<lparr>environ = Map.empty, openFiles = []\<rparr>"]
  show ?thesis by (simp add: wordChars_def)
qed

text \<open>
  C8: on a text without any placeholder occurrence the substitution is the identity,
  whatever the environment is.
\<close>

theorem replaceEnvVariables_identity_without_placeholder:
  assumes "\<forall>name. \<not> placeholderIn name content"
  shows "replaceEnvVariables p content = Return content \<and>
         replaceEnvVariables_v1 p content = Return (content, None)"
  using assms by (simp add: replaceEnvVariables_no_placeholder replaceEnvVariables_v1_eq)

theorem replaceEnvVariables_identity_witness:
  "replaceEnvVariables \<lparr>environ = Map.empty, openFiles = []\<rparr> ''cost: $5 ${} {a}'' =
     Return ''cost: $5 ${} {a}''"
proof -
  have "\<forall>name. \<not> placeholderIn name ''cost: $5 ${} {a}''"
    unfolding no_placeholder_iff by (simp add: re_defs matchPrefix.simps)
  with replaceEnvVariables_identity_without_placeholder
         [of "''cost: $5 ${} {a}''" "\<lparr>environ = Map.empty, openFiles = []\<rparr>"]
  show ?thesis by simp
qed

text \<open>
  C1, as the specification has it: when exactly one entry of the directory has the
  stem \<open>N\<close> (under case folding) and a recognized extension, \<^verbatim>\<open>read\<close> returns the
  bytes of that file unchanged. \<^verbatim>\<open>read\<close> passes the content through
  \<^verbatim>\<open>replaceEnvVariables\<close> before it returns it: with \<^verbatim>\<open>APP_NAME=TestApp\<close> in the
  environment the file \<^verbatim>\<open>name: ${APP_NAME}\<close> is not returned as it is.
\<close>

theorem read_substitutes_counterexample:
  "filter (candidate (\<lambda>s t. s = t) ''app'') [''README'', ''app.yaml'', ''db.yaml''] = [''app.yaml''] \<and>
   filter (candidate_v1 (\<lambda>s t. s = t) ''app'') [''README'', ''app.yaml'', ''db.yaml''] = [''app.yaml''] \<and>
   read (\<lambda>s t. s = t) \<lparr>ReadDir = (\<lambda>d. Inr [''README'', ''app.yaml'', ''db.yaml'']),
         ReadFile = (\<lambda>f. Inr ''name: ${APP_NAME}''),
         Open = (\<lambda>f. Inl ''no such file'')\<rparr>
     \<lparr>environ = [''APP_NAME'' \<mapsto> ''TestApp''], openFiles = []\<rparr> ''app'' [''conf''] =
     Return (Inr ''name: TestApp'') \<and>
   read_v1 (\<lambda>s t. s = t) \<lparr>ReadDir = (\<lambda>d. Inr [''README'', ''app.yaml'', ''db.yaml'']),
         ReadFile = (\<lambda>f. Inr ''name: ${APP_NAME}''),
         Open = (\<lambda>f. Inl ''no such file'')\<rparr>
     \<lparr>environ = [''APP_NAME'' \<mapsto> ''TestApp''], openFiles = []\<rparr> ''app'' ''conf'' =
     Return (Inr ''name: TestApp'') \<and>
   ''name: TestApp'' \<noteq> ''name: ${APP_NAME}''"
  by (simp add: candidate_defs eval_defs read_def read_v1_def Cut_def replaceEnvVariables_v1_def)

text \<open>
  C1, amended: when exactly one entry of the directory has the stem \<open>N\<close> under
  \<^verbatim>\<open>strings.EqualFold\<close> (whatever its rune loop \<open>foldRunes\<close> does with names that are
  not ASCII) and a recognized extension, and that file can be read, \<^verbatim>\<open>read\<close> gives
  what the substitution makes of the content of that file: the content with its
  placeholders replaced, or the panic of the substitution. It returns exactly the bytes
  of the file when the content has no placeholder; and where the content has a
  placeholder \<^verbatim>\<open>${X}\<close> of a variable set to a value \<open>V\<close> that is not empty, the value
  stands in the place of the placeholder, between what the substitution makes of the
  text before it and of the text after it. This holds for the deny-list \<^verbatim>\<open>read\<close>
  and for the allow-list \<^verbatim>\<open>read\<close> of the first version.
\<close>

theorem read_unique_match_returns_substituted_content:
  assumes "ReadDir fs dir = Inr entries" and "ReadFile fs (Join dir entry) = Inr content"
  shows "(dir = (if length basePath > 0 then basePath ! 0 else ''config'') \<and>
          filter (candidate foldRunes fileName) entries = [entry] \<longrightarrow>
            read foldRunes fs p fileName basePath =
              (case replaceEnvVariables p content of
                 Panic e \<Rightarrow> Panic e
               | Return c \<Rightarrow> Return (Inr c)) \<and>
            ((\<forall>name. \<not> placeholderIn name content) \<longrightarrow>
               read foldRunes fs p fileName basePath = Return (Inr content)) \<and>
            (X \<noteq> [] \<and> set X \<subseteq> set wordChars \<and> environ p X = Some V \<and> V \<noteq> [] \<and>
             content = before @ ''${'' @ X @ ''}'' @ after \<longrightarrow>
               read foldRunes fs p fileName basePath =
                 (case replaceEnvVariables p before of
                    Panic e \<Rightarrow> Panic e
                  | Return a \<Rightarrow>
                      (case replaceEnvVariables p after of
                         Panic e \<Rightarrow> Panic e
                       | Return b \<Rightarrow> Return (Inr (a @ V @ b)))))) \<and>
         (filter (candidate_v1 foldRunes fileName) entries = [entry] \<longrightarrow>
            read_v1 foldRunes fs p fileName dir =
              (case replaceEnvVariables p content of
                 Panic e \<Rightarrow> Panic e
               | Return c \<Rightarrow> Return (Inr c)) \<and>
            ((\<forall>name. \<not> placeholderIn name content) \<longrightarrow>
               read_v1 foldRunes fs p fileName dir = Return (Inr content)) \<and>
            (X \<noteq> [] \<and> set X \<subseteq> set wordChars \<and> environ p X = Some V \<and> V \<noteq> [] \<and>
             content = before @ ''${'' @ X @ ''}'' @ after \<longrightarrow>
               read_v1 foldRunes fs p fileName dir =
                 (case replaceEnvVariables p before of
                    Panic e \<Rightarrow> Panic e
                  | Return a \<Rightarrow>
                      (case replaceEnvVariables p after of
                         Panic e \<Rightarrow> Panic e
                       | Return b \<Rightarrow> Return (Inr (a @ V @ b))))))"
proof -
  have none: "(\<forall>name. \<not> placeholderIn name content) \<longrightarrow>
      (case replaceEnvVariables p content of Panic e \<Rightarrow> Panic e | Return c \<Rightarrow> Return (Inr c)) =
        Return (Inr content)"
    by (simp add: replaceEnvVariables_no_placeholder)
  have one: "X \<noteq> [] \<and> set X \<subseteq> set wordChars \<and> environ p X = Some V \<and> V \<noteq> [] \<and>
             content = before @ ''${'' @ X @ ''}'' @ after \<longrightarrow>
      (case replaceEnvVariables p content of Panic e \<Rightarrow> Panic e | Return c \<Rightarrow> Return (Inr c)) =
        (case replaceEnvVariables p before of
           Panic e \<Rightarrow> Panic e
         | Return a \<Rightarrow>
             (case replaceEnvVariables p after of
                Panic e \<Rightarrow> Panic e
              | Return b \<Rightarrow> Return (Inr (a @ V @ b))))"
  proof
    assume a: "X \<noteq> [] \<and> set X \<subseteq> set wordChars \<and> environ p X = Some V \<and> V \<noteq> [] \<and>
             content = before @ ''${'' @ X @ ''}'' @ after"
    then have "replaceEnvVariables p (before @ ''${'' @ X @ ''}'' @ after) =
        (case replaceEnvVariables p before of
           Panic e \<Rightarrow> Panic e
         | Return a \<Rightarrow>
             (case replaceEnvVariables p after of
                Panic e \<Rightarrow> Panic e
              | Return b \<Rightarrow> Return (a @ V @ b)))"
      by (intro replaceEnvVariables_placeholder_set) blast+
    moreover from a have "content = before @ ''${'' @ X @ ''}'' @ after" by blast
    ultimately show "(case replaceEnvVariables p content of
                        Panic e \<Rightarrow> Panic e | Return c \<Rightarrow> Return (Inr c)) =
        (case replaceEnvVariables p before of
           Panic e \<Rightarrow> Panic e
         | Return a \<Rightarrow>
             (case replaceEnvVariables p after of
                Panic e \<Rightarrow> Panic e
              | Return b \<Rightarrow> Return (Inr (a @ V @ b))))"
      by (simp split: outcome.splits)
  qed
  have v2: "read foldRunes fs p fileName basePath =
      (case replaceEnvVariables p content of Panic e \<Rightarrow> Panic e | Return c \<Rightarrow> Return (Inr c))"
    if a: "dir = (if length basePath > 0 then basePath ! 0 else ''config'') \<and>
          filter (candidate foldRunes fileName) entries = [entry]"
  proof -
    from a obtain pre post where s: "entries = pre @ entry # post"
        "\<forall>e\<in>set pre. \<not> candidate foldRunes fileName e" "candidate foldRunes fileName entry"
      using filter_singleton_split [of "candidate foldRunes fileName" entries entry] by blast
    from assms(1) a
    have "read foldRunes fs p fileName basePath = readFiles foldRunes fs p dir fileName entries"
      by (simp add: read_def Let_def)
    with s assms(2) show ?thesis by (simp add: readFiles_first)
  qed
  have v1: "read_v1 foldRunes fs p fileName dir =
      (case replaceEnvVariables p content of Panic e \<Rightarrow> Panic e | Return c \<Rightarrow> Return (Inr c))"
    if a: "filter (candidate_v1 foldRunes fileName) entries = [entry]"
  proof -
    from a obtain pre post where s: "entries = pre @ entry # post"
        "\<forall>e\<in>set pre. \<not> candidate_v1 foldRunes fileName e" "candidate_v1 foldRunes fileName entry"
      using filter_singleton_split [of "candidate_v1 foldRunes fileName" entries entry] by blast
    from assms(1)
    have "read_v1 foldRunes fs p fileName dir = readFiles_v1 foldRunes fs p dir fileName entries"
      by (simp add: read_v1_def)
    with s assms(2) show ?thesis by (simp add: readFiles_v1_first)
  qed
  from v2 v1 none one show ?thesis by (intro conjI impI) simp_all
qed

theorem read_unique_match_witness:
  "read (\<lambda>s t. s = t) \<lparr>ReadDir = (\<lambda>d. Inr [''README'', ''app.yaml'', ''db.yaml'']),
         ReadFile = (\<lambda>f. Inr ''name: ${APP_NAME}''),
         Open = (\<lambda>f. Inl ''no such file'')\<rparr>
     \<lparr>environ = [''APP_NAME'' \<mapsto> ''TestApp''], openFiles = []\<rparr> ''app'' [] =
     Return (Inr ''name: TestApp'') \<and>
   read_v1 (\<lambda>s t. s = t) \<lparr>ReadDir = (\<lambda>d. Inr [''README'', ''app.yaml'', ''db.yaml'']),
         ReadFile = (\<lambda>f. Inr ''version: 1.0''),
         Open = (\<lambda>f. Inl ''no such file'')\<rparr>
     \<lparr>environ = Map.empty, openFiles = []\<rparr> ''app'' ''config'' =
     Return (Inr ''version: 1.0'')"
proof -
  define fs1 where "fs1 = \<lparr>ReadDir = (\<lambda>d. Inr [''README'', ''app.yaml'', ''db.yaml'']),
         ReadFile = (\<lambda>f. Inr ''name: ${APP_NAME}''),
         Open = (\<lambda>f. Inl ''no such file'')\<rparr>"
  define fs2 where "fs2 = \<lparr>ReadDir = (\<lambda>d. Inr [''README'', ''app.yaml'', ''db.yaml'']),
         ReadFile = (\<lambda>f. Inr ''version: 1.0''),
         Open = (\<lambda>f. Inl ''no such file'')\<rparr>"
  define p1 where "p1 = \<lparr>environ = [''APP_NAME'' \<mapsto> ''TestApp''], openFiles = []\<rparr>"
  define p2 where "p2 = \<lparr>environ = Map.empty, openFiles = ([] :: path list)\<rparr>"
  have d1: "ReadDir fs1 ''config'' = Inr [''README'', ''app.yaml'', ''db.yaml'']"
    and f1: "ReadFile fs1 (Join ''config'' ''app.yaml'') = Inr ''name: ${APP_NAME}''"
    and d2: "ReadDir fs2 ''config'' = Inr [''README'', ''app.yaml'', ''db.yaml'']"
    and f2: "ReadFile fs2 (Join ''config'' ''app.yaml'') = Inr ''version: 1.0''"
    by (simp_all add: fs1_def fs2_def)
  have c: "filter (candidate (\<lambda>s t. s = t) ''app'') [''README'', ''app.yaml'', ''db.yaml''] = [''app.yaml'']"
    and c1: "filter (candidate_v1 (\<lambda>s t. s = t) ''app'') [''README'', ''app.yaml'', ''db.yaml''] = [''app.yaml'']"
    by (simp_all add: candidate_defs)
  have dd: "''config'' = (if length ([] :: string list) > 0 then [] ! 0 else ''config'')"
    by simp
  have h: "''APP_NAME'' \<noteq> [] \<and> set ''APP_NAME'' \<subseteq> set wordChars \<and>
           environ p1 ''APP_NAME'' = Some ''TestApp'' \<and> ''TestApp'' \<noteq> [] \<and>
           ''name: ${APP_NAME}'' = ''name: '' @ ''${'' @ ''APP_NAME'' @ ''}'' @ []"
    by (simp add: wordChars_def p1_def)
  have np: "\<forall>name. \<not> placeholderIn name ''version: 1.0''"
    by (auto dest: placeholderIn_dollar)
  have pre: "replaceEnvVariables p1 ''name: '' = Return ''name: ''"
    by (simp add: eval_defs p1_def)
  have post: "replaceEnvVariables p1 [] = Return []"
    by (simp add: eval_defs p1_def)
  from read_unique_match_returns_substituted_content
    [OF d1 f1, where basePath = "[]" and fileName = "''app''" and foldRunes = "\<lambda>s t. s = t"
       and p = p1 and X = "''APP_NAME''" and V = "''TestApp''" and before = "''name: ''"
       and after = "[]"] dd c h
  have "read (\<lambda>s t. s = t) fs1 p1 ''app'' [] =
          (case replaceEnvVariables p1 ''name: '' of
             Panic e \<Rightarrow> Panic e
           | Return a \<Rightarrow>
               (case replaceEnvVariables p1 [] of
                  Panic e \<Rightarrow> Panic e
                | Return b \<Rightarrow> Return (Inr (a @ ''TestApp'' @ b))))"
    by blast
  with pre post have 1: "read (\<lambda>s t. s = t) fs1 p1 ''app'' [] = Return (Inr ''name: TestApp'')"
    by simp
  from read_unique_match_returns_substituted_content
    [OF d2 f2, where fileName = "''app''" and foldRunes = "\<lambda>s t. s = t" and p = p2] c1 np
  have 2: "read_v1 (\<lambda>s t. s = t) fs2 p2 ''app'' ''config'' = Return (Inr ''version: 1.0'')"
    by blast
  from 1 2 show ?thesis unfolding fs1_def fs2_def p1_def p2_def by (rule conjI)
qed

text \<open>
  C6: the first entry in listing order that has an extension, passes the extension
  filter and whose stem equals the logical name under \<^verbatim>\<open>strings.EqualFold\<close>
  (whatever its rune loop \<open>foldRunes\<close> does with names that are not ASCII) decides
  the call, whatever follows it in the listing: the result is made from the file of
  that entry alone (its read error, or its content after substitution), so that no
  later entry, matching or not, is read. This holds for both versions of \<^verbatim>\<open>read\<close>.
\<close>

theorem read_first_match_wins:
  assumes "ReadDir fs dir = Inr (pre @ entry # post)"
  shows "(dir = (if length basePath > 0 then basePath ! 0 else ''config'') \<and>
          candidate foldRunes fileName entry \<and> (\<forall>e\<in>set pre. \<not> candidate foldRunes fileName e) \<longrightarrow>
            read foldRunes fs p fileName basePath =
              (case ReadFile fs (Join dir entry) of
                 Inl msg \<Rightarrow> Return (Inl (ErrReadingFile fileName))
               | Inr content \<Rightarrow>
                   (case replaceEnvVariables p content of
                      Panic e \<Rightarrow> Panic e
                    | Return c \<Rightarrow> Return (Inr c)))) \<and>
         (candidate_v1 foldRunes fileName entry \<and> (\<forall>e\<in>set pre. \<not> candidate_v1 foldRunes fileName e) \<longrightarrow>
            read_v1 foldRunes fs p fileName dir =
              (case ReadFile fs (Join dir entry) of
                 Inl msg \<Rightarrow> Return (Inl (ErrReadingFile msg))
               | Inr content \<Rightarrow>
                   (case replaceEnvVariables p content of
                      Panic e \<Rightarrow> Panic e
                    | Return c \<Rightarrow> Return (Inr c))))"
proof (intro conjI impI)
  assume a: "dir = (if length basePath > 0 then basePath ! 0 else ''config'') \<and>
          candidate foldRunes fileName entry \<and> (\<forall>e\<in>set pre. \<not> candidate foldRunes fileName e)"
  with assms
  have "read foldRunes fs p fileName basePath =
          readFiles foldRunes fs p dir fileName (pre @ entry # post)"
    by (simp add: read_def Let_def)
  with a show "read foldRunes fs p fileName basePath =
              (case ReadFile fs (Join dir entry) of
                 Inl msg \<Rightarrow> Return (Inl (ErrReadingFile fileName))
               | Inr content \<Rightarrow>
                   (case replaceEnvVariables p content of
                      Panic e \<Rightarrow> Panic e
                    | Return c \<Rightarrow> Return (Inr c)))"
    by (simp add: readFiles_first)
next
  assume a: "candidate_v1 foldRunes fileName entry \<and> (\<forall>e\<in>set pre. \<not> candidate_v1 foldRunes fileName e)"
  from assms
  have "read_v1 foldRunes fs p fileName dir =
          readFiles_v1 foldRunes fs p dir fileName (pre @ entry # post)"
    by (simp add: read_v1_def)
  with a show "read_v1 foldRunes fs p fileName dir =
              (case ReadFile fs (Join dir entry) of
                 Inl msg \<Rightarrow> Return (Inl (ErrReadingFile msg))
               | Inr content \<Rightarrow>
                   (case replaceEnvVariables p content of
                      Panic e \<Rightarrow> Panic e
                    | Return c \<Rightarrow> Return (Inr c)))"
    by (simp add: readFiles_v1_first)
qed

theorem read_first_match_wins_witness:
  "read (\<lambda>s t. s = t) \<lparr>ReadDir = (\<lambda>d. Inr [''notes'', ''app.go'', ''App.yaml'', ''app.json'']),
         ReadFile = (\<lambda>(d, n). Inr (''from '' @ n)),
         Open = (\<lambda>f. Inl ''no such file'')\<rparr>
     \<lparr>environ = Map.empty, openFiles = []\<rparr> ''app'' [''conf''] = Return (Inr ''from App.yaml'') \<and>
   read_v1 (\<lambda>s t. s = t) \<lparr>ReadDir = (\<lambda>d. Inr [''notes'', ''app.go'', ''App.yaml'', ''app.json'']),
         ReadFile = (\<lambda>(d, n). Inr (''from '' @ n)),
         Open = (\<lambda>f. Inl ''no such file'')\<rparr>
     \<lparr>environ = Map.empty, openFiles = []\<rparr> ''app'' ''conf'' = Return (Inr ''from App.yaml'')"
  using read_first_match_wins
    [where fs = "\<lparr>ReadDir = (\<lambda>d. Inr [''notes'', ''app.go'', ''App.yaml'', ''app.json'']),
         ReadFile = (\<lambda>(d, n). Inr (''from '' @ n)),
         Open = (\<lambda>f. Inl ''no such file'')\<rparr>"
       and dir = "''conf''" and pre = "[''notes'', ''app.go'']" and entry = "''App.yaml''"
       and post = "[''app.json'']" and basePath = "[''conf'']" and fileName = "''app''"
       and foldRunes = "\<lambda>s t. s = t"
       and p = "\<lparr>environ = Map.empty, openFiles = []\<rparr>"]
  by (simp add: candidate_defs eval_defs Join_def)

text \<open>
  C10: the extension is compared byte for byte while the stem is compared under case
  folding. In the allow-list version \<^verbatim>\<open>app.YAML\<close> is skipped (and \<^verbatim>\<open>APP.yaml\<close>
  is found for \<^verbatim>\<open>app\<close>); in the deny-list version \<^verbatim>\<open>main.GO\<close> is not excluded
  (and \<^verbatim>\<open>main.go\<close> is).
\<close>

theorem extension_filter_is_case_sensitive:
  "read_v1 foldRunes \<lparr>ReadDir = (\<lambda>d. Inr [''app.YAML'']), ReadFile = (\<lambda>f. Inr content), Open = opn\<rparr>
      p ''app'' dir = Return (Inl (ErrUnsupportedExt ''app'')) \<and>
   read_v1 foldRunes \<lparr>ReadDir = (\<lambda>d. Inr [''APP.yaml'']), ReadFile = (\<lambda>f. Inr content), Open = opn\<rparr>
      p ''app'' dir =
     (case replaceEnvVariables p content of Panic e \<Rightarrow> Panic e | Return c \<Rightarrow> Return (Inr c)) \<and>
   read foldRunes \<lparr>ReadDir = (\<lambda>d. Inr [''main.GO'']), ReadFile = (\<lambda>f. Inr content), Open = opn\<rparr>
      p ''main'' [dir] =
     (case replaceEnvVariables p content of Panic e \<Rightarrow> Panic e | Return c \<Rightarrow> Return (Inr c)) \<and>
   read foldRunes \<lparr>ReadDir = (\<lambda>d. Inr [''main.go'']), ReadFile = (\<lambda>f. Inr content), Open = opn\<rparr>
      p ''main'' [dir] = Return (Inl (ErrUnsupportedExt ''main''))"
  by (simp add: read_def read_v1_def Cut_def supportedExtensions_def excludeExtensions_def
      foldEq_def replaceEnvVariables_v1_eq split: outcome.splits)

theorem extension_filter_witness:
  "read_v1 (\<lambda>s t. s = t) \<lparr>ReadDir = (\<lambda>d. Inr [''app.YAML'']), ReadFile = (\<lambda>f. Inr ''a: 1''),
            Open = (\<lambda>f. Inl ''no such file'')\<rparr>
      \<lparr>environ = Map.empty, openFiles = []\<rparr> ''app'' ''config'' =
     Return (Inl (ErrUnsupportedExt ''app'')) \<and>
   read (\<lambda>s t. s = t) \<lparr>ReadDir = (\<lambda>d. Inr [''main.GO'']), ReadFile = (\<lambda>f. Inr ''a: 1''),
            Open = (\<lambda>f. Inl ''no such file'')\<rparr>
      \<lparr>environ = Map.empty, openFiles = []\<rparr> ''main'' [''config''] = Return (Inr ''a: 1'')"
  using extension_filter_is_case_sensitive
    [where foldRunes = "\<lambda>s t. s = t" and content = "''a: 1''" and opn = "\<lambda>f. Inl ''no such file''"
       and p = "\<lparr>environ = Map.empty, openFiles = []\<rparr>" and dir = "''config''"]
  by (simp add: eval_defs)

text \<open>
  C9: for a line that the pattern accepts, the setter is called with the text of the
  line before its first \<open>=\<close> as the key and the text after it as the value, neither of
  them trimmed: the line is the key, \<open>=\<close> and the value. The line \<^verbatim>\<open>FOO =bar\<close> sets
  the variable \<^verbatim>\<open>"FOO "\<close>, not \<^verbatim>\<open>"FOO"\<close>.
\<close>

theorem setEnvVarFromLine_key_value_untrimmed:
  assumes "MatchString regexEnvFromFile line"
  shows "line = takeWhile (\<lambda>c. c \<noteq> CHR ''='') line @ CHR ''='' # tl (dropWhile (\<lambda>c. c \<noteq> CHR ''='') line) \<and>
         length (SplitN line CHR ''='' 2) = 2 \<and>
         setEnvVarFromLine regexEnvFromFile line p =
           Setenv (takeWhile (\<lambda>c. c \<noteq> CHR ''='') line) (tl (dropWhile (\<lambda>c. c \<noteq> CHR ''='') line)) p \<and>
         setEnvVarFromLine_v1 setEnvFunc regexEnvFromFile line p =
           setEnvFunc (takeWhile (\<lambda>c. c \<noteq> CHR ''='') line) (tl (dropWhile (\<lambda>c. c \<noteq> CHR ''='') line)) p"
proof -
  from MatchString_key [OF assms] have eq: "CHR ''='' \<in> set line" by simp
  then have 1: "line = takeWhile (\<lambda>c. c \<noteq> CHR ''='') line @ CHR ''='' # tl (dropWhile (\<lambda>c. c \<noteq> CHR ''='') line)"
    by (rule split_at_first)
  from eq have 2: "length (SplitN line CHR ''='' 2) = 2" by (simp add: SplitN_2)
  from 1 2 setEnvVarFromLine_accept [OF assms] show ?thesis by blast
qed

theorem setEnvVarFromLine_key_value_witness:
  "MatchString regexEnvFromFile ''FOO =bar'' \<and>
   setEnvVarFromLine regexEnvFromFile ''FOO =bar'' \<lparr>environ = Map.empty, openFiles = []\<rparr> =
     (None, \<lparr>environ = [''FOO '' \<mapsto> ''bar''], openFiles = []\<rparr>) \<and>
   [''FOO '' \<mapsto> ''bar''] ''FOO'' = None"
proof -
  have m: "MatchString regexEnvFromFile ''FOO =bar''"
    by (simp add: eval_defs)
  from setEnvVarFromLine_key_value_untrimmed [OF m, of "\<lparr>environ = Map.empty, openFiles = []\<rparr>" Setenv]
  show ?thesis using m by (simp add: Setenv_def)
qed

text \<open>
  C5, as the specification has it: for every env file that has an invalid candidate
  line the load fails with \<open>InvalidEnvFormatError\<close> carrying that line. The loop
  returns at the first line that fails, and a line that matches the pattern can fail
  in \<^verbatim>\<open>os.Setenv\<close>: on a file whose first line is \<^verbatim>\<open>A=x\<close>, a NUL byte and \<^verbatim>\<open>y\<close>,
  and whose second line is \<^verbatim>\<open>BAD\<close>, \<^verbatim>\<open>LoadEnv\<close> returns the error of \<^verbatim>\<open>os.Setenv\<close>
  and not a format error for \<^verbatim>\<open>BAD\<close>.
\<close>

theorem LoadEnv_earlier_setter_failure_counterexample:
  "\<not> isCommentOrEmpty ''BAD'' \<and> CHR ''='' \<notin> set ''BAD'' \<and>
   LoadEnv \<lparr>ReadDir = (\<lambda>d. Inl ''no such directory''), ReadFile = (\<lambda>f. Inl ''no such file''),
            Open = (\<lambda>f. Inr ([[CHR ''A'', CHR ''='', CHR ''x'', CHR 0x00, CHR ''y''], ''BAD''], None))\<rparr>
     [] \<lparr>environ = Map.empty, openFiles = []\<rparr> =
     (Some (Foreign ''setenv: invalid argument''),
      \<lparr>environ = Map.empty, openFiles = [Join ''.'' ''.env'']\<rparr>) \<and>
   Foreign ''setenv: invalid argument'' \<noteq> ErrInvalidEnvFormat ''BAD''"
proof -
  have n1: "\<not> isCommentOrEmpty ''BAD''"
    by (rule not_comment) (simp_all add: leadingSpace_def spaceRunes_def)
  have n2: "\<not> isCommentOrEmpty [CHR ''A'', CHR ''='', CHR ''x'', CHR 0x00, CHR ''y'']"
    by (rule not_comment) (simp_all add: leadingSpace_def spaceRunes_def)
  have s: "setEnvVarFromLine regexEnvFromFile [CHR ''A'', CHR ''='', CHR ''x'', CHR 0x00, CHR ''y''] q =
             (Some (Foreign ''setenv: invalid argument''), q)" for q
    by (simp add: setEnvVarFromLine_def eval_defs numeral_2_eq_2 Setenv_def)
  from n1 n2 s show ?thesis
    by (simp add: LoadEnv_def openFile_def osOpen_def NewScanner_def)
qed

text \<open>
  C5, amended: when the lines of an env file are \<open>pre\<close>, then a candidate line
  \<open>bad\<close> that is not valid (it has no \<open>=\<close>, or no key character before its first
  \<open>=\<close>, as with an empty key, or it does not match the pattern in another way), then
  \<open>post\<close>, the load returns what the lines \<open>pre\<close> alone decide: the error of an
  earlier line when one of them fails (an earlier invalid line, or a failure of
  \<^verbatim>\<open>os.Setenv\<close>), and else \<open>InvalidEnvFormatError\<close> carrying \<open>bad\<close> as it is, with
  the environment that the lines \<open>pre\<close> have made, in which every variable set before
  the load and every variable an earlier line set is still set. The lines \<open>post\<close> and
  what the scanner would report after them make no difference. This is so for
  \<^verbatim>\<open>parseEnvFile\<close> and for \<^verbatim>\<open>LoadEnv\<close> on the first file it opens.
\<close>

theorem parseEnvFile_stops_at_invalid_line:
  assumes "\<not> isCommentOrEmpty bad"
    and "CHR ''='' \<notin> set bad \<or>
         (\<forall>c \<in> set (takeWhile (\<lambda>c. c \<noteq> CHR ''='') bad). c \<notin> set keyChars) \<or>
         \<not> MatchString regexEnvFromFile bad"
  shows "parseEnvFile (Scanner (pre @ bad # post) err) p =
           (case parseEnvFile (Scanner pre None) p of
              (Some e, p') \<Rightarrow> (Some e, p')
            | (None, p') \<Rightarrow> (Some (ErrInvalidEnvFormat bad), p')) \<and>
         (\<forall>p'. parseEnvFile (Scanner pre None) p = (None, p') \<longrightarrow>
            parseEnvFile (Scanner (pre @ bad # post) err) p = (Some (ErrInvalidEnvFormat bad), p') \<and>
            dom (environ p) \<subseteq> dom (environ p') \<and>
            (\<forall>l \<in> set pre. \<not> isCommentOrEmpty l \<longrightarrow>
               takeWhile (\<lambda>c. c \<noteq> CHR ''='') l \<in> dom (environ p'))) \<and>
         (Open fs (Join ''.'' (hd (if length envFiles = 0 then [''.env''] else envFiles))) =
            Inr (pre @ bad # post, err) \<longrightarrow>
          LoadEnv fs envFiles p =
            (case parseEnvFile (Scanner pre None)
                    (p\<lparr>openFiles := Join ''.'' (hd (if length envFiles = 0 then [''.env''] else envFiles)) # openFiles p\<rparr>) of
               (Some e, p') \<Rightarrow> (Some e, p')
             | (None, p') \<Rightarrow> (Some (ErrInvalidEnvFormat bad), p')))"
proof -
  from assms(2) have inv: "CHR ''='' \<notin> set bad \<or> \<not> MatchString regexEnvFromFile bad"
    using MatchString_no_key [of bad] by blast
  note at = parseEnvFile_at_invalid_line [OF assms(1) inv]
  have 1: "parseEnvFile (Scanner (pre @ bad # post) err) p =
           (case parseEnvFile (Scanner pre None) p of
              (Some e, p') \<Rightarrow> (Some e, p')
            | (None, p') \<Rightarrow> (Some (ErrInvalidEnvFormat bad), p'))"
    by (rule at)
  have 2: "\<forall>p'. parseEnvFile (Scanner pre None) p = (None, p') \<longrightarrow>
            parseEnvFile (Scanner (pre @ bad # post) err) p = (Some (ErrInvalidEnvFormat bad), p') \<and>
            dom (environ p) \<subseteq> dom (environ p') \<and>
            (\<forall>l \<in> set pre. \<not> isCommentOrEmpty l \<longrightarrow>
               takeWhile (\<lambda>c. c \<noteq> CHR ''='') l \<in> dom (environ p'))"
  proof (intro allI impI conjI)
    fix p' assume r: "parseEnvFile (Scanner pre None) p = (None, p')"
    with 1 show "parseEnvFile (Scanner (pre @ bad # post) err) p = (Some (ErrInvalidEnvFormat bad), p')"
      by simp
    from parseEnvFile_dom [OF r] show "dom (environ p) \<subseteq> dom (environ p')" by simp
    show "\<forall>l \<in> set pre. \<not> isCommentOrEmpty l \<longrightarrow>
               takeWhile (\<lambda>c. c \<noteq> CHR ''='') l \<in> dom (environ p')"
      using parseEnvFile_keys_set [OF r] by blast
  qed
  have 3: "Open fs (Join ''.'' (hd (if length envFiles = 0 then [''.env''] else envFiles))) =
            Inr (pre @ bad # post, err) \<longrightarrow>
          LoadEnv fs envFiles p =
            (case parseEnvFile (Scanner pre None)
                    (p\<lparr>openFiles := Join ''.'' (hd (if length envFiles = 0 then [''.env''] else envFiles)) # openFiles p\<rparr>) of
               (Some e, p') \<Rightarrow> (Some e, p')
             | (None, p') \<Rightarrow> (Some (ErrInvalidEnvFormat bad), p'))"
  proof
    assume o: "Open fs (Join ''.'' (hd (if length envFiles = 0 then [''.env''] else envFiles))) =
            Inr (pre @ bad # post, err)"
    show "LoadEnv fs envFiles p =
            (case parseEnvFile (Scanner pre None)
                    (p\<lparr>openFiles := Join ''.'' (hd (if length envFiles = 0 then [''.env''] else envFiles)) # openFiles p\<rparr>) of
               (Some e, p') \<Rightarrow> (Some e, p')
             | (None, p') \<Rightarrow> (Some (ErrInvalidEnvFormat bad), p'))"
      unfolding LoadEnv_first_file [OF o] at
      by (simp split: prod.splits option.splits)
  qed
  from 1 2 3 show ?thesis by (intro conjI)
qed

theorem parseEnvFile_stops_witness:
  "parseEnvFile (Scanner [''# settings'', ''APP_NAME=TestApp'', ''APP_VERSION:1.0'', ''AUTHOR=me''] None)
     \<lparr>environ = Map.empty, openFiles = []\<rparr> =
   (Some (ErrInvalidEnvFormat ''APP_VERSION:1.0''),
    \<lparr>environ = [''APP_NAME'' \<mapsto> ''TestApp''], openFiles = []\<rparr>) \<and>
   parseEnvFile (Scanner [''# settings'', ''APP_NAME=TestApp'', ''=1.0'', ''AUTHOR=me''] None)
     \<lparr>environ = Map.empty, openFiles = []\<rparr> =
   (Some (ErrInvalidEnvFormat ''=1.0''),
    \<lparr>environ = [''APP_NAME'' \<mapsto> ''TestApp''], openFiles = []\<rparr>)"
proof -
  have n1: "\<not> isCommentOrEmpty ''APP_VERSION:1.0''"
    by (rule not_comment) (simp_all add: leadingSpace_def spaceRunes_def)
  have n2: "\<not> isCommentOrEmpty ''=1.0''"
    by (rule not_comment) (simp_all add: leadingSpace_def spaceRunes_def)
  have h1: "CHR ''='' \<notin> set ''APP_VERSION:1.0'' \<or>
         (\<forall>c \<in> set (takeWhile (\<lambda>c. c \<noteq> CHR ''='') ''APP_VERSION:1.0''). c \<notin> set keyChars) \<or>
         \<not> MatchString regexEnvFromFile ''APP_VERSION:1.0''"
    by simp
  have h2: "CHR ''='' \<notin> set ''=1.0'' \<or>
         (\<forall>c \<in> set (takeWhile (\<lambda>c. c \<noteq> CHR ''='') ''=1.0''). c \<notin> set keyChars) \<or>
         \<not> MatchString regexEnvFromFile ''=1.0''"
    by simp
  from parseEnvFile_stops_at_invalid_line [OF n1 h1,
         where pre = "[''# settings'', ''APP_NAME=TestApp'']" and post = "[''AUTHOR=me'']"
           and err = None and p = "\<lparr>environ = Map.empty, openFiles = []\<rparr>"]
       parseEnvFile_stops_at_invalid_line [OF n2 h2,
         where pre = "[''# settings'', ''APP_NAME=TestApp'']" and post = "[''AUTHOR=me'']"
           and err = None and p = "\<lparr>environ = Map.empty, openFiles = []\<rparr>"]
       parseEnvFile_valid_prefix
  show ?thesis by (simp del: parseEnvFile.simps)
qed

text \<open>
  C2: the file is to be released on every exit path of \<^verbatim>\<open>LoadEnv\<close>. The code closes
  the file only after \<^verbatim>\<open>parseEnvFile\<close> has returned no error: on an env file whose
  first line is \<^verbatim>\<open>APP_NAME:TestApp\<close> both versions return the format error with the
  file still open, while on a valid file they return with no file open. Lemma
  \<open>loadEnvFiles_openFiles\<close> has the general picture.
\<close>

theorem LoadEnv_leaves_file_open_on_invalid_line:
  "LoadEnv \<lparr>ReadDir = (\<lambda>d. Inl ''no such directory''), ReadFile = (\<lambda>f. Inl ''no such file''),
            Open = (\<lambda>f. Inr ([''APP_NAME:TestApp'', ''APP_VERSION:1.0''], None))\<rparr>
      [] \<lparr>environ = Map.empty, openFiles = []\<rparr> =
     (Some (ErrInvalidEnvFormat ''APP_NAME:TestApp''),
      \<lparr>environ = Map.empty, openFiles = [Join ''.'' ''.env'']\<rparr>) \<and>
   LoadEnv_v1 Setenv
      \<lparr>ReadDir = (\<lambda>d. Inl ''no such directory''), ReadFile = (\<lambda>f. Inl ''no such file''),
            Open = (\<lambda>f. Inr ([''APP_NAME:TestApp'', ''APP_VERSION:1.0''], None))\<rparr>
      [] \<lparr>environ = Map.empty, openFiles = []\<rparr> =
     (Some (ErrInvalidEnvFormat ''APP_NAME:TestApp''),
      \<lparr>environ = Map.empty, openFiles = [Join ''.'' ''.env'']\<rparr>) \<and>
   LoadEnv \<lparr>ReadDir = (\<lambda>d. Inl ''no such directory''), ReadFile = (\<lambda>f. Inl ''no such file''),
            Open = (\<lambda>f. Inr ([''APP_NAME=TestApp''], None))\<rparr>
      [] \<lparr>environ = Map.empty, openFiles = []\<rparr> =
     (None, \<lparr>environ = [''APP_NAME'' \<mapsto> ''TestApp''], openFiles = []\<rparr>)"
  by (simp add: LoadEnv_def LoadEnv_v1_def openFile_def openFile_v1_def osOpen_def NewScanner_def
      Close_def Join_def invalid_line_not_skipped valid_line_not_skipped setEnvVarFromLine_def setEnvVarFromLine_v1_def eval_defs
      numeral_2_eq_2 Setenv_def)

text \<open>
  C7, as the specification has it: whenever the configured deserializer rejects the
  content, \<^verbatim>\<open>ParseConfig\<close> returns an \<open>UnmarshalError\<close> wrapping the parser's error
  text. \<^verbatim>\<open>ParseConfig\<close> returns the error of the deserializer as it is; the wrapping
  is done inside \<^verbatim>\<open>unmarshallYAML\<close>, so a deserializer given to \<^verbatim>\<open>NewGoConfig\<close>
  that fails with another error gets that error returned.
\<close>

theorem ParseConfig_custom_deserializer_counterexample:
  "ParseConfig (NewGoConfig (\<lambda>content s. (None, s)) [\<lambda>s content. (Some (Foreign ''boom''), s)])
     (\<lambda>s t. s = t)
     \<lparr>ReadDir = (\<lambda>d. Inr [''app.yaml'']), ReadFile = (\<lambda>f. Inr ''name: TestApp''),
      Open = (\<lambda>f. Inl ''no such file'')\<rparr>
     \<lparr>environ = Map.empty, openFiles = []\<rparr> (0::nat) ''app'' [''conf''] =
     Return (Some (Foreign ''boom''), 0) \<and>
   Foreign ''boom'' \<noteq> ErrUnmarshalling ''boom''"
  by (simp add: ParseConfig_def NewGoConfig_def read_def Cut_def excludeExtensions_def foldEq_def
      eval_defs)

text \<open>
  C7, amended: when the configured deserializer rejects the content, \<^verbatim>\<open>ParseConfig\<close>
  returns the error of the deserializer unchanged, with the structure as the one call
  of the deserializer left it (it is not called again); with the default deserializer
  that error is an \<open>UnmarshalError\<close> wrapping the error text of the YAML parser.
\<close>

theorem ParseConfig_returns_deserializer_error:
  assumes "read foldRunes fs p configName directoryName = Return (Inr content)"
  shows "(unmarshallFunc g target content = (Some err, s') \<longrightarrow>
            ParseConfig g foldRunes fs p target configName directoryName = Return (Some err, s')) \<and>
         (yamlUnmarshal content target = (Some msg, s') \<longrightarrow>
            ParseConfig (NewGoConfig yamlUnmarshal []) foldRunes fs p target configName directoryName =
              Return (Some (ErrUnmarshalling msg), s'))"
  using assms by (simp add: ParseConfig_def NewGoConfig_def unmarshallYAML_def)

theorem ParseConfig_returns_deserializer_error_witness:
  "ParseConfig (NewGoConfig (\<lambda>content s. (Some ''yaml: line 2: bad token'', Suc s)) [])
     (\<lambda>s t. s = t)
     \<lparr>ReadDir = (\<lambda>d. Inr [''app.yaml'']), ReadFile = (\<lambda>f. Inr ''name: TestApp''),
      Open = (\<lambda>f. Inl ''no such file'')\<rparr>
     \<lparr>environ = Map.empty, openFiles = []\<rparr> (0::nat) ''app'' [''conf''] =
     Return (Some (ErrUnmarshalling ''yaml: line 2: bad token''), Suc 0)"
proof -
  have r: "read (\<lambda>s t. s = t) \<lparr>ReadDir = (\<lambda>d. Inr [''app.yaml'']), ReadFile = (\<lambda>f. Inr ''name: TestApp''),
      Open = (\<lambda>f. Inl ''no such file'')\<rparr>
     \<lparr>environ = Map.empty, openFiles = []\<rparr> ''app'' [''conf''] = Return (Inr ''name: TestApp'')"
    by (simp add: read_def Cut_def excludeExtensions_def foldEq_def eval_defs)
  from ParseConfig_returns_deserializer_error [OF r,
      where yamlUnmarshal = "\<lambda>content s. (Some ''yaml: line 2: bad token'', Suc s)"
        and target = 0 and msg = "''yaml: line 2: bad token''" and s' = "Suc 0"]
  show ?thesis by simp
qed

end
